theory Spec2Isabelle
  imports Main "HOL-Library.Word"
begin

section \<open>Data model of tsqueue.c\<close>

text \<open>
  \<open>size_t\<close> is a 64-bit unsigned integer: \<open>+\<close>, \<open>-\<close> and \<open>*\<close> wrap around.
  A pointer to caller memory (\<open>data\<close>, \<open>in\<close>, \<open>out\<close>) is modelled by the bytes found
  at each offset from it. The three objects are distinct, so they never alias.
\<close>

type_synonym size_t = "64 word"
type_synonym byte = "8 word"
type_synonym mem = "nat \<Rightarrow> byte"

text \<open>The three condition variables of \<open>struct tsqueue\<close>.\<close>

datatype cond = producer_wakeup | consumer_wakeup | all_dead

text \<open>
  \<open>struct tsqueue\<close> without its synchronisation objects; \<open>data\<close> stands for the
  memory the pointer of that name refers to.
\<close>

record tsqueue =
  capacity :: size_t
  used :: size_t
  elem_size :: size_t
  data :: mem
  producer_n_elems :: size_t
  n_consumers_waiting :: size_t
  producers_done :: bool
  die :: bool

text \<open>The error codes of tsqueue.h, for a 32-bit \<open>int\<close>.\<close>

definition INT_MIN :: int where
  "INT_MIN = - 2147483648"

definition TSQUEUE_CLOSED :: int where
  "TSQUEUE_CLOSED = INT_MIN"

definition TSQUEUE_TOO_MANY :: int where
  "TSQUEUE_TOO_MANY = INT_MIN + 1"

definition TSQUEUE_SINGLE_PRODUCER :: int where
  "TSQUEUE_SINGLE_PRODUCER = INT_MIN + 2"

text \<open>
  Every function of the queue runs with the lock held, and gives it up only inside
  \<open>pthread_cond_wait\<close> and when it returns. A call is therefore a sequence of atomic
  segments: from its entry to the first wait or to its return, and from each wake-up
  to the next wait or to its return. A segment ends \<open>Blocked\<close> on a condition variable
  or \<open>Returned\<close> with the call's results; both carry the condition variables signalled
  during the segment, in order, and the queue as the segment leaves it.
\<close>

datatype 'r outcome =
  Blocked "cond list" cond tsqueue
| Returned "cond list" 'r tsqueue

fun state_of :: "'r outcome \<Rightarrow> tsqueue" where
  "state_of (Blocked sigs c q) = q"
| "state_of (Returned sigs r q) = q"

fun signals_of :: "'r outcome \<Rightarrow> cond list" where
  "signals_of (Blocked sigs c q) = sigs"
| "signals_of (Returned sigs r q) = sigs"

fun result_of :: "'r outcome \<Rightarrow> 'r option" where
  "result_of (Blocked sigs c q) = None"
| "result_of (Returned sigs r q) = Some r"

fun is_blocked :: "'r outcome \<Rightarrow> bool" where
  "is_blocked (Blocked sigs c q) = True"
| "is_blocked (Returned sigs r q) = False"

text \<open>\<open>memcpy(dst + doff, src + soff, len)\<close> between two distinct objects.\<close>

definition memcpy :: "mem \<Rightarrow> nat \<Rightarrow> mem \<Rightarrow> nat \<Rightarrow> nat \<Rightarrow> mem" where
  "memcpy dst doff src soff len =
     (\<lambda>i. if doff \<le> i \<and> i < doff + len then src (soff + (i - doff)) else dst i)"

text \<open>\<open>memmove(m + doff, m + soff, len)\<close> inside one object: the source bytes are read
  before any is written.\<close>

definition memmove :: "mem \<Rightarrow> nat \<Rightarrow> nat \<Rightarrow> nat \<Rightarrow> mem" where
  "memmove m doff soff len =
     (\<lambda>i. if doff \<le> i \<and> i < doff + len then m (soff + (i - doff)) else m i)"

text \<open>The \<open>len\<close> bytes found from offset \<open>off\<close> on.\<close>

definition region :: "mem \<Rightarrow> nat \<Rightarrow> nat \<Rightarrow> byte list" where
  "region m off len = map (\<lambda>i. m (off + i)) [0..<len]"

text \<open>A memory holding the given bytes from offset 0 on, and zero after them.\<close>

definition mem_of :: "byte list \<Rightarrow> mem" where
  "mem_of bs = (\<lambda>i. if i < length bs then bs ! i else 0)"

section \<open>tsqueue\_create\<close>

text \<open>
  What the operating system answers to the calls of \<open>tsqueue_create\<close>: the pointer
  \<open>malloc\<close> returns (\<open>None\<close> is \<open>NULL\<close>), \<open>errno\<close> after it, and the return values of
  \<open>pthread_mutex_init\<close> and of the three \<open>pthread_cond_init\<close> calls.
\<close>

record os_calls =
  malloc_ret :: "nat option"
  errno :: int
  mutex_init_ret :: int
  producer_wakeup_init_ret :: int
  consumer_wakeup_init_ret :: int
  all_dead_init_ret :: int

text \<open>The resources a queue is made of, and the array its caller owns.\<close>

datatype resource = Queue_object | Lock | Cond_var cond | Backing_store

text \<open>
  \<open>tsqueue_create\<close> either dereferences a null pointer, or returns its \<open>int\<close>, the queue
  it built when it succeeds, and the resources it holds at that moment.
\<close>

datatype create_result =
  Null_dereference
| Create_returned int "tsqueue option" "resource list"

text \<open>The \<open>switch (steps_done)\<close> of the failure path, with its fall-through.\<close>

definition create_cleanup :: "nat \<Rightarrow> resource list \<Rightarrow> resource list" where
  "create_cleanup steps_done live =
     (let live = (if steps_done = 4 then removeAll (Cond_var all_dead) live else live);
          live = (if steps_done = 4 \<or> steps_done = 3
                  then removeAll (Cond_var consumer_wakeup) live else live);
          live = (if steps_done = 4 \<or> steps_done = 3 \<or> steps_done = 2
                  then removeAll (Cond_var producer_wakeup) live else live);
          live = (if steps_done = 4 \<or> steps_done = 3 \<or> steps_done = 2 \<or> steps_done = 1
                  then removeAll Lock live else live)
      in live)"

text \<open>The compound literal of line 97: the fields it does not name are zero.\<close>

definition new_queue :: "mem \<Rightarrow> size_t \<Rightarrow> size_t \<Rightarrow> size_t \<Rightarrow> tsqueue" where
  "new_queue dat cap es usd =
     \<lparr>capacity = cap, used = usd, elem_size = es, data = dat,
      producer_n_elems = 0, n_consumers_waiting = 0,
      producers_done = False, die = False\<rparr>"

text \<open>
  \<open>queue_out\<close> is the out-parameter \<open>queue\<close> (\<open>None\<close> when the caller passes \<open>NULL\<close>).
  Line 90 stores through it; line 92 tests it, not the pointer \<open>malloc\<close> returned;
  line 97 stores through the pointer \<open>malloc\<close> returned.
\<close>

definition tsqueue_create ::
  "os_calls \<Rightarrow> nat option \<Rightarrow> mem \<Rightarrow> size_t \<Rightarrow> size_t \<Rightarrow> size_t \<Rightarrow> create_result" where
  "tsqueue_create os queue_out dat cap es usd =
     (if queue_out = None then Null_dereference
      else
        let retval = (if queue_out = None then errno os else 0)
        in if retval = 0 \<and> malloc_ret os = None then Null_dereference
           else
             let live = (if malloc_ret os = None then [] else [Queue_object]);
                 q = new_queue dat cap es usd;
                 steps_done = (0::nat);
                 retval = (if retval = 0 then mutex_init_ret os else retval);
                 live = (if retval = 0 then live @ [Lock] else live);
                 (steps_done, retval) =
                   (if retval = 0 then (1, producer_wakeup_init_ret os)
                    else (steps_done, retval));
                 live = (if steps_done = 1 \<and> retval = 0
                         then live @ [Cond_var producer_wakeup] else live);
                 (steps_done, retval) =
                   (if retval = 0 then (2, consumer_wakeup_init_ret os)
                    else (steps_done, retval));
                 live = (if steps_done = 2 \<and> retval = 0
                         then live @ [Cond_var consumer_wakeup] else live);
                 (steps_done, retval) =
                   (if retval = 0 then (3, all_dead_init_ret os)
                    else (steps_done, retval));
                 live = (if steps_done = 3 \<and> retval = 0
                         then live @ [Cond_var all_dead] else live);
                 steps_done = (if retval = 0 then 4 else steps_done)
             in if retval \<noteq> 0
                then Create_returned retval None
                       (removeAll Queue_object (create_cleanup steps_done live))
                else Create_returned retval (Some q) live)"

section \<open>The operations on a queue\<close>

text \<open>\<open>signal_if_all_dead\<close>: the signals it sends.\<close>

definition signal_if_all_dead :: "tsqueue \<Rightarrow> cond list" where
  "signal_if_all_dead q =
     (if producer_n_elems q = 0 \<and> n_consumers_waiting q = 0 then [all_dead] else [])"

text \<open>\<open>wait_for_space_internal\<close>, lines 335 to 341: the test of \<open>die\<close> and the return.\<close>

definition wait_for_space_internal_exit :: "tsqueue \<Rightarrow> int \<Rightarrow> int outcome" where
  "wait_for_space_internal_exit q retval =
     (if die q then Returned (signal_if_all_dead q) TSQUEUE_CLOSED q
      else Returned [] retval q)"

text \<open>Lines 328 to 332, from the head of the \<open>while\<close> loop: where the call arrives after
  line 327, and again each time \<open>pthread_cond_wait\<close> returns.\<close>

definition wait_for_space_internal_loop :: "tsqueue \<Rightarrow> size_t \<Rightarrow> int outcome" where
  "wait_for_space_internal_loop q n_elems =
     (if \<not> die q \<and> capacity q - used q < n_elems then Blocked [] producer_wakeup q
      else wait_for_space_internal_exit (q\<lparr>producer_n_elems := 0\<rparr>) 0)"

definition wait_for_space_internal :: "tsqueue \<Rightarrow> size_t \<Rightarrow> int outcome" where
  "wait_for_space_internal q n_elems =
     (let retval = (if n_elems > capacity q then TSQUEUE_TOO_MANY else 0);
          retval = (if producer_n_elems q \<noteq> 0 then TSQUEUE_SINGLE_PRODUCER else retval)
      in if retval = 0
         then wait_for_space_internal_loop (q\<lparr>producer_n_elems := n_elems\<rparr>) n_elems
         else wait_for_space_internal_exit q retval)"

definition tsqueue_capacity :: "tsqueue \<Rightarrow> size_t outcome" where
  "tsqueue_capacity q = Returned [] (capacity q) q"

definition tsqueue_wait_for_space :: "tsqueue \<Rightarrow> size_t \<Rightarrow> int outcome" where
  "tsqueue_wait_for_space q n_elems = wait_for_space_internal q n_elems"

text \<open>A blocked \<open>tsqueue_wait_for_space\<close> wakes up, on the queue as it is by then.\<close>

definition tsqueue_wait_for_space_wake :: "tsqueue \<Rightarrow> size_t \<Rightarrow> int outcome" where
  "tsqueue_wait_for_space_wake q n_elems = wait_for_space_internal_loop q n_elems"

text \<open>\<open>tsqueue_put\<close>, lines 224 to 238: what follows \<open>wait_for_space_internal\<close>.\<close>

fun tsqueue_put_exit :: "size_t \<Rightarrow> mem \<Rightarrow> int outcome \<Rightarrow> int outcome" where
  "tsqueue_put_exit n_elems inp (Blocked sigs c q) = Blocked sigs c q"
| "tsqueue_put_exit n_elems inp (Returned sigs retval q) =
     (if retval = 0
      then Returned
             (sigs @ (if n_elems \<noteq> 0 \<and> n_consumers_waiting q \<noteq> 0
                      then [consumer_wakeup] else []))
             retval
             (q\<lparr>data := memcpy (data q) (unat (used q * elem_size q))
                          inp 0 (unat (n_elems * elem_size q)),
                used := used q + n_elems\<rparr>)
      else Returned sigs retval q)"

definition tsqueue_put :: "tsqueue \<Rightarrow> size_t \<Rightarrow> mem \<Rightarrow> int outcome" where
  "tsqueue_put q n_elems inp = tsqueue_put_exit n_elems inp (wait_for_space_internal q n_elems)"

text \<open>A blocked \<open>tsqueue_put\<close> wakes up.\<close>

definition tsqueue_put_wake :: "tsqueue \<Rightarrow> size_t \<Rightarrow> mem \<Rightarrow> int outcome" where
  "tsqueue_put_wake q n_elems inp =
     tsqueue_put_exit n_elems inp (wait_for_space_internal_loop q n_elems)"

text \<open>
  \<open>tsqueue_pop\<close> returns its \<open>int\<close>, the value left in \<open>*n_elems\<close> and the buffer \<open>out\<close>.
  Lines 262 to 295: the test of \<open>die\<close>, the copy and the return.
\<close>

type_synonym pop_result = "int \<times> size_t \<times> mem"

definition tsqueue_pop_exit :: "tsqueue \<Rightarrow> size_t \<Rightarrow> mem \<Rightarrow> int \<Rightarrow> pop_result outcome" where
  "tsqueue_pop_exit q n_elems out retval =
     (let (retval, n_elems, sigs) =
            (if die q then (TSQUEUE_CLOSED, 0, signal_if_all_dead q)
             else (retval, n_elems, []))
      in if retval = 0
         then
           let n_elems = (if used q < n_elems then used q else n_elems);
               out = memcpy out 0 (data q) 0 (unat (n_elems * elem_size q));
               q = q\<lparr>used := used q - n_elems\<rparr>;
               q = q\<lparr>data := memmove (data q) 0 (unat (n_elems * elem_size q))
                                 (unat (used q * elem_size q))\<rparr>;
               sigs = sigs @ (if producer_n_elems q \<noteq> 0
                                 \<and> producer_n_elems q \<le> capacity q - used q
                              then [producer_wakeup] else []);
               sigs = sigs @ (if used q \<noteq> 0 \<and> n_consumers_waiting q \<noteq> 0
                              then [consumer_wakeup] else [])
           in Returned sigs (retval, n_elems, out) q
         else Returned sigs (retval, n_elems, out) q)"

text \<open>Lines 255 to 259, from the head of the \<open>while\<close> loop.\<close>

definition tsqueue_pop_loop :: "tsqueue \<Rightarrow> size_t \<Rightarrow> mem \<Rightarrow> pop_result outcome" where
  "tsqueue_pop_loop q n_elems out =
     (if \<not> producers_done q \<and> \<not> die q \<and> used q < n_elems
      then Blocked [] consumer_wakeup q
      else tsqueue_pop_exit (q\<lparr>n_consumers_waiting := n_consumers_waiting q - 1\<rparr>)
             n_elems out 0)"

definition tsqueue_pop :: "tsqueue \<Rightarrow> size_t \<Rightarrow> mem \<Rightarrow> pop_result outcome" where
  "tsqueue_pop q n_elems out =
     (if n_elems > capacity q then tsqueue_pop_exit q n_elems out TSQUEUE_TOO_MANY
      else tsqueue_pop_loop (q\<lparr>n_consumers_waiting := n_consumers_waiting q + 1\<rparr>)
             n_elems out)"

text \<open>A blocked \<open>tsqueue_pop\<close> wakes up.\<close>

definition tsqueue_pop_wake :: "tsqueue \<Rightarrow> size_t \<Rightarrow> mem \<Rightarrow> pop_result outcome" where
  "tsqueue_pop_wake q n_elems out = tsqueue_pop_loop q n_elems out"

definition tsqueue_set_done :: "tsqueue \<Rightarrow> bool \<Rightarrow> unit outcome" where
  "tsqueue_set_done q done =
     Returned (replicate (unat (n_consumers_waiting q)) consumer_wakeup) ()
       (q\<lparr>producers_done := done\<rparr>)"

text \<open>\<open>tsqueue_close\<close>, lines 176 to 181, from the head of the \<open>while\<close> loop.\<close>

definition tsqueue_close_loop :: "cond list \<Rightarrow> tsqueue \<Rightarrow> unit outcome" where
  "tsqueue_close_loop sigs q =
     (if producer_n_elems q \<noteq> 0 \<and> n_consumers_waiting q \<noteq> 0 then Blocked sigs all_dead q
      else Returned sigs () q)"

definition tsqueue_close :: "tsqueue \<Rightarrow> unit outcome" where
  "tsqueue_close q =
     (let q = q\<lparr>die := True\<rparr>;
          sigs = (if producer_n_elems q \<noteq> 0 then [producer_wakeup] else []);
          sigs = sigs @ replicate (unat (n_consumers_waiting q)) consumer_wakeup
      in tsqueue_close_loop sigs q)"

text \<open>A blocked \<open>tsqueue_close\<close> wakes up.\<close>

definition tsqueue_close_wake :: "tsqueue \<Rightarrow> unit outcome" where
  "tsqueue_close_wake q = tsqueue_close_loop [] q"

text \<open>
  \<open>tsqueue_destroy\<close> returns what it stores through \<open>used\<close> (nothing when the caller
  passes \<open>NULL\<close>, that is \<open>want_used = False\<close>) and the resources it releases, in order.
  The queue of the outcome is the object as it was when \<open>free\<close> took it; its \<open>data\<close> is
  the caller's array.
\<close>

type_synonym destroy_result = "size_t option \<times> resource list"

fun tsqueue_destroy_exit :: "bool \<Rightarrow> unit outcome \<Rightarrow> destroy_result outcome" where
  "tsqueue_destroy_exit want_used (Blocked sigs c q) = Blocked sigs c q"
| "tsqueue_destroy_exit want_used (Returned sigs u q) =
     Returned sigs
       (if want_used then Some (used q) else None,
        [Lock, Cond_var producer_wakeup, Cond_var consumer_wakeup, Cond_var all_dead,
         Queue_object])
       q"

definition tsqueue_destroy :: "tsqueue \<Rightarrow> bool \<Rightarrow> destroy_result outcome" where
  "tsqueue_destroy q want_used = tsqueue_destroy_exit want_used (tsqueue_close q)"

definition tsqueue_destroy_wake :: "tsqueue \<Rightarrow> bool \<Rightarrow> destroy_result outcome" where
  "tsqueue_destroy_wake q want_used = tsqueue_destroy_exit want_used (tsqueue_close_wake q)"

section \<open>Sequences of operations\<close>

text \<open>
  The atomic segments threads can run on a queue: the entry of a call, or the wake-up
  of a blocked one. \<open>pthread_cond_wait\<close> may return at any moment, so a sequence of
  events puts no condition on when a blocked call wakes up.
\<close>

datatype event =
  Capacity
| Wait_for_space size_t
| Wait_for_space_wake size_t
| Put size_t mem
| Put_wake size_t mem
| Pop size_t mem
| Pop_wake size_t mem
| Set_done bool
| Close
| Close_wake

fun segment :: "event \<Rightarrow> tsqueue \<Rightarrow> tsqueue" where
  "segment Capacity q = state_of (tsqueue_capacity q)"
| "segment (Wait_for_space n) q = state_of (tsqueue_wait_for_space q n)"
| "segment (Wait_for_space_wake n) q = state_of (tsqueue_wait_for_space_wake q n)"
| "segment (Put n inp) q = state_of (tsqueue_put q n inp)"
| "segment (Put_wake n inp) q = state_of (tsqueue_put_wake q n inp)"
| "segment (Pop n out) q = state_of (tsqueue_pop q n out)"
| "segment (Pop_wake n out) q = state_of (tsqueue_pop_wake q n out)"
| "segment (Set_done done) q = state_of (tsqueue_set_done q done)"
| "segment Close q = state_of (tsqueue_close q)"
| "segment Close_wake q = state_of (tsqueue_close_wake q)"

definition run :: "event list \<Rightarrow> tsqueue \<Rightarrow> tsqueue" where
  "run evs q = fold segment evs q"

text \<open>
  The valid elements of a queue, as bytes: the first \<open>used\<close> slots of \<open>data\<close>, each of
  \<open>elem_size\<close> bytes.
\<close>

definition contents :: "tsqueue \<Rightarrow> byte list" where
  "contents q = region (data q) 0 (unat (used q) * unat (elem_size q))"

text \<open>The \<open>k\<close>-th slot of an array of elements of \<open>es\<close> bytes.\<close>

definition slot :: "mem \<Rightarrow> size_t \<Rightarrow> nat \<Rightarrow> byte list" where
  "slot m es k = region m (k * unat es) (unat es)"

text \<open>
  What the caller of \<open>tsqueue_create\<close> owes: \<open>data\<close> holds \<open>capacity\<close> elements of
  \<open>elem_size\<close> bytes (an object of at most \<open>2 ^ 64 - 1\<close> bytes), of which \<open>used\<close> are valid.
\<close>

definition well_formed :: "tsqueue \<Rightarrow> bool" where
  "well_formed q =
     (used q \<le> capacity q \<and> unat (capacity q) * unat (elem_size q) < 2 ^ 64)"

text \<open>
  What a call of \<open>tsqueue_pop\<close> that returned shows its caller: the first \<open>*n_elems\<close>
  elements of \<open>out\<close> when it returned 0, and nothing otherwise.
\<close>

definition observed :: "size_t \<Rightarrow> pop_result \<Rightarrow> byte list" where
  "observed es r =
     (case r of (retval, n, out) \<Rightarrow>
        if retval = 0 then region out 0 (unat n * unat es) else [])"

text \<open>
  One thread calls \<open>tsqueue_pop\<close> again and again: what each call shows and the queue
  after the calls, when none of them waits.
\<close>

fun pop_all :: "tsqueue \<Rightarrow> (size_t \<times> mem) list \<Rightarrow> (byte list list \<times> tsqueue) option" where
  "pop_all q [] = Some ([], q)"
| "pop_all q ((n, out) # calls) =
     (case tsqueue_pop q n out of
        Blocked sigs c q' \<Rightarrow> None
      | Returned sigs r q' \<Rightarrow>
          (case pop_all q' calls of
             None \<Rightarrow> None
           | Some (outs, q'') \<Rightarrow> Some (observed (elem_size q) r # outs, q'')))"

text \<open>
  What a segment does to the elements of the queue, as its caller sees it: a
  \<open>tsqueue_put\<close> that returns 0, at once or after its wait, has inserted the \<open>n_elems\<close>
  elements of \<open>in\<close>; a \<open>tsqueue_pop\<close> that returns 0 was asked for \<open>n_elems\<close> elements
  and shows the first \<open>*n_elems\<close> elements of \<open>out\<close>. Sizes are in bytes.
\<close>

datatype io = Inserted "byte list" | Popped nat "byte list"

fun put_io :: "size_t \<Rightarrow> size_t \<Rightarrow> mem \<Rightarrow> int outcome \<Rightarrow> io list" where
  "put_io es n inp (Blocked sigs c q') = []"
| "put_io es n inp (Returned sigs retval q') =
     (if retval = 0 then [Inserted (region inp 0 (unat n * unat es))] else [])"

fun pop_io :: "size_t \<Rightarrow> size_t \<Rightarrow> pop_result outcome \<Rightarrow> io list" where
  "pop_io es n (Blocked sigs c q') = []"
| "pop_io es n (Returned sigs r q') =
     (if fst r = 0 then [Popped (unat n * unat es) (observed es r)] else [])"

fun io_of :: "event \<Rightarrow> tsqueue \<Rightarrow> io list" where
  "io_of (Put n inp) q = put_io (elem_size q) n inp (tsqueue_put q n inp)"
| "io_of (Put_wake n inp) q = put_io (elem_size q) n inp (tsqueue_put_wake q n inp)"
| "io_of (Pop n out) q = pop_io (elem_size q) n (tsqueue_pop q n out)"
| "io_of (Pop_wake n out) q = pop_io (elem_size q) n (tsqueue_pop_wake q n out)"
| "io_of ev q = []"

text \<open>What the segments of a sequence do to the elements, in order.\<close>

fun trace :: "event list \<Rightarrow> tsqueue \<Rightarrow> io list" where
  "trace [] q = []"
| "trace (ev # evs) q = io_of ev q @ trace evs (segment ev q)"

text \<open>
  The first-in, first-out queue of the specification, as a list of bytes with the
  oldest element first: an insertion appends, and a pop asked for \<open>k\<close> bytes shows the
  first \<open>k\<close> bytes, or all of them when there are fewer, and removes them. \<open>fifo\<close> runs a
  list of insertions and pops from given contents: it gives the contents left, and
  \<open>None\<close> when a pop showed anything else.
\<close>

fun fifo :: "io list \<Rightarrow> byte list \<Rightarrow> byte list option" where
  "fifo [] xs = Some xs"
| "fifo (Inserted ys # ios) xs = fifo ios (xs @ ys)"
| "fifo (Popped k ys # ios) xs = (if ys = take k xs then fifo ios (drop k xs) else None)"

section \<open>Properties of the operations\<close>

subsection \<open>Regions of memory\<close>

lemma region_length [simp]: "length (region m off len) = len"
  by (simp add: region_def)

lemma region_nth: "i < len \<Longrightarrow> region m off len ! i = m (off + i)"
  by (simp add: region_def)

lemma region_append: "region m off (a + b) = region m off a @ region m (off + a) b"
  by (rule nth_equalityI) (auto simp: region_nth nth_append)

lemma region_cong: "(\<And>i. i < len \<Longrightarrow> m (off + i) = m' (off' + i)) \<Longrightarrow> region m off len = region m' off' len"
  by (rule nth_equalityI) (auto simp: region_nth)

lemma region_memcpy_dst: "region (memcpy dst doff src soff len) doff len = region src soff len"
  by (rule region_cong) (simp add: memcpy_def)

lemma region_memcpy_before: "off + k \<le> doff \<Longrightarrow> region (memcpy dst doff src soff len) off k = region dst off k"
  by (rule region_cong) (simp add: memcpy_def)

lemma region_memmove: "region (memmove m 0 soff len) 0 len = region m soff len"
  by (rule region_cong) (simp add: memmove_def)

subsection \<open>\<open>size_t\<close> arithmetic that does not wrap\<close>

text \<open>Offsets into an array of \<open>capacity\<close> elements, and counts that fit in the free space.\<close>

lemma unat_mult_le:
  fixes k c e :: size_t
  assumes "k \<le> c" "unat c * unat e < 2 ^ 64"
  shows "unat (k * e) = unat k * unat e"
proof -
  have "unat k \<le> unat c" using assms(1) by (simp add: word_le_nat_alt)
  then have a: "unat k * unat e \<le> unat c * unat e" by (rule mult_le_mono1)
  have b: "unat c * unat e < 2 ^ LENGTH(64)" using assms(2) by simp
  from a b have "unat k * unat e < 2 ^ LENGTH(64)" by (rule le_less_trans)
  then show ?thesis by (simp only: unat_mult_lem)
qed

lemma fits_nat:
  fixes u c n :: size_t
  assumes "u \<le> c" "\<not> c - u < n"
  shows "unat u + unat n \<le> unat c"
proof -
  have "unat (c - u) = unat c - unat u" using assms(1) by (rule unat_sub)
  moreover have "unat n \<le> unat (c - u)" using assms(2) by (simp add: word_le_nat_alt not_less)
  moreover have "unat u \<le> unat c" using assms(1) by (simp add: word_le_nat_alt)
  ultimately show ?thesis by simp
qed

lemma fits_unat:
  fixes u c n :: size_t
  assumes "u \<le> c" "\<not> c - u < n"
  shows "unat (u + n) = unat u + unat n"
proof -
  have "unat u + unat n \<le> unat c" using assms by (rule fits_nat)
  moreover have "unat c < 2 ^ LENGTH(64)" by (rule unsigned_less)
  ultimately have "unat u + unat n < 2 ^ LENGTH(64)" by simp
  then show ?thesis by (simp only: unat_add_lem)
qed

lemma fits_le:
  fixes u c n :: size_t
  assumes "u \<le> c" "\<not> c - u < n"
  shows "u + n \<le> c"
  using fits_nat [OF assms] fits_unat [OF assms] by (simp add: word_le_nat_alt)

subsection \<open>A put that returns 0\<close>

lemma error_codes_nonzero [simp]:
  "TSQUEUE_CLOSED \<noteq> 0" "TSQUEUE_TOO_MANY \<noteq> 0" "TSQUEUE_SINGLE_PRODUCER \<noteq> 0"
  "TSQUEUE_CLOSED \<noteq> TSQUEUE_TOO_MANY" "TSQUEUE_CLOSED \<noteq> TSQUEUE_SINGLE_PRODUCER"
  "TSQUEUE_TOO_MANY \<noteq> TSQUEUE_SINGLE_PRODUCER"
  "TSQUEUE_TOO_MANY \<noteq> TSQUEUE_CLOSED" "TSQUEUE_SINGLE_PRODUCER \<noteq> TSQUEUE_CLOSED"
  "TSQUEUE_SINGLE_PRODUCER \<noteq> TSQUEUE_TOO_MANY"
  by (simp_all add: TSQUEUE_CLOSED_def TSQUEUE_TOO_MANY_def TSQUEUE_SINGLE_PRODUCER_def INT_MIN_def)

lemma wfs_loop_zero:
  assumes "wait_for_space_internal_loop q n = Returned sigs 0 q'"
  shows "\<not> die q \<and> \<not> capacity q - used q < n \<and> q' = q\<lparr>producer_n_elems := 0\<rparr>"
  using assms
  by (auto simp: wait_for_space_internal_loop_def wait_for_space_internal_exit_def split: if_splits)

lemma wfs_zero:
  assumes "wait_for_space_internal q n = Returned sigs 0 q'"
  shows "\<not> die q \<and> \<not> capacity q - used q < n \<and> q' = q\<lparr>producer_n_elems := 0\<rparr>"
  using assms
  by (auto simp: wait_for_space_internal_def Let_def wait_for_space_internal_exit_def
       dest!: wfs_loop_zero split: if_splits)

lemma put_exit_zero:
  assumes "tsqueue_put_exit n inp w = Returned sigs 0 q'"
  obtains s q1 where "w = Returned s 0 q1"
    "q' = q1\<lparr>data := memcpy (data q1) (unat (used q1 * elem_size q1)) inp 0 (unat (n * elem_size q1)),
              used := used q1 + n\<rparr>"
  using assms by (cases w) (auto split: if_splits)

lemma append_contents:
  assumes wf: "well_formed q" and fit: "\<not> capacity q - used q < n"
  shows "contents (q\<lparr>producer_n_elems := 0,
            data := memcpy (data q) (unat (used q * elem_size q)) inp 0 (unat (n * elem_size q)),
            used := used q + n\<rparr>)
         = contents q @ region inp 0 (unat n * unat (elem_size q))"
proof -
  let ?e = "unat (elem_size q)"
  from wf have le: "used q \<le> capacity q" and bound: "unat (capacity q) * ?e < 2 ^ 64"
    by (simp_all add: well_formed_def)
  have off: "unat (used q * elem_size q) = unat (used q) * ?e"
    using le bound by (rule unat_mult_le)
  have "unat (used q) + unat n \<le> unat (capacity q)" using le fit by (rule fits_nat)
  then have "n \<le> capacity q" by (simp add: word_le_nat_alt)
  then have len: "unat (n * elem_size q) = unat n * ?e"
    using bound by (rule unat_mult_le)
  have sum: "unat (used q + n) = unat (used q) + unat n" using le fit by (rule fits_unat)
  show ?thesis
    by (simp add: contents_def off len sum add_mult_distrib region_append
        region_memcpy_before region_memcpy_dst)
qed

lemma append_well_formed:
  assumes wf: "well_formed q" and fit: "\<not> capacity q - used q < n"
  shows "well_formed (q\<lparr>producer_n_elems := 0, data := d, used := used q + n\<rparr>)"
  using assms fits_le [of "used q" "capacity q" n] by (simp add: well_formed_def)

lemma put_zero:
  assumes "tsqueue_put q n inp = Returned sigs 0 q'" and wf: "well_formed q"
  shows "contents q' = contents q @ region inp 0 (unat n * unat (elem_size q))"
    and "well_formed q'" and "elem_size q' = elem_size q" and "capacity q' = capacity q"
proof -
  from assms(1) obtain s q1 where w: "wait_for_space_internal q n = Returned s 0 q1"
    and q': "q' = q1\<lparr>data := memcpy (data q1) (unat (used q1 * elem_size q1)) inp 0 (unat (n * elem_size q1)),
              used := used q1 + n\<rparr>"
    unfolding tsqueue_put_def by (rule put_exit_zero)
  from wfs_zero [OF w] have fit: "\<not> capacity q - used q < n" and q1: "q1 = q\<lparr>producer_n_elems := 0\<rparr>"
    by simp_all
  show "contents q' = contents q @ region inp 0 (unat n * unat (elem_size q))"
    using append_contents [OF wf fit, of inp] by (simp add: q' q1)
  show "well_formed q'" using append_well_formed [OF wf fit] by (simp add: q' q1)
  show "elem_size q' = elem_size q" "capacity q' = capacity q" by (simp_all add: q' q1)
qed

subsection \<open>A pop that returns\<close>

text \<open>What a pop shows, followed by what it leaves, is what the queue held.\<close>

lemma pop_copy_contents:
  assumes wf: "well_formed q" and le: "n \<le> used q"
  shows "region (memcpy out 0 (data q) 0 (unat (n * elem_size q))) 0 (unat n * unat (elem_size q))
         @ contents (q\<lparr>used := used q - n,
              data := memmove (data q) 0 (unat (n * elem_size q))
                        (unat ((used q - n) * elem_size q))\<rparr>)
         = contents q"
proof -
  let ?e = "unat (elem_size q)"
  from wf have ule: "used q \<le> capacity q" and bound: "unat (capacity q) * ?e < 2 ^ 64"
    by (simp_all add: well_formed_def)
  from le ule have "n \<le> capacity q" by simp
  then have len: "unat (n * elem_size q) = unat n * ?e" using bound by (rule unat_mult_le)
  have sub: "unat (used q - n) = unat (used q) - unat n" using le by (rule unat_sub)
  have "used q - n \<le> used q" using le by (simp add: word_le_nat_alt unat_sub)
  with ule have "used q - n \<le> capacity q" by simp
  then have rest: "unat ((used q - n) * elem_size q) = unat (used q - n) * ?e"
    using bound by (rule unat_mult_le)
  have nle: "unat n \<le> unat (used q)" using le by (simp add: word_le_nat_alt)
  then have split: "unat (used q) * ?e = unat n * ?e + (unat (used q) - unat n) * ?e"
    by (simp add: diff_mult_distrib)
  have "region (data q) 0 (unat (used q) * ?e)
        = region (data q) 0 (unat n * ?e) @ region (data q) (unat n * ?e) ((unat (used q) - unat n) * ?e)"
    by (simp only: split region_append) simp
  then show ?thesis
    by (simp add: contents_def len rest sub region_memmove)
       (metis region_memcpy_dst)
qed

lemma pop_exit_fifo:
  assumes r: "tsqueue_pop_exit q n out r0 = Returned sigs r q'" and wf: "well_formed q"
  shows "observed (elem_size q) r @ contents q' = contents q \<and> well_formed q'
         \<and> elem_size q' = elem_size q \<and> capacity q' = capacity q"
proof (cases "\<not> die q \<and> r0 = 0")
  case False
  with r have "q' = q" "fst r \<noteq> 0"
    by (auto simp: tsqueue_pop_exit_def split: if_splits)
  with wf show ?thesis by (cases r) (simp add: observed_def)
next
  case True
  define m where "m = (if used q < n then used q else n)"
  have le: "m \<le> used q" by (simp add: m_def not_less)
  from True r have r': "r = (0, m, memcpy out 0 (data q) 0 (unat (m * elem_size q)))"
    and q': "q' = q\<lparr>used := used q - m,
              data := memmove (data q) 0 (unat (m * elem_size q))
                        (unat ((used q - m) * elem_size q))\<rparr>"
    by (auto simp: tsqueue_pop_exit_def Let_def m_def)
  from wf have ule: "used q \<le> capacity q" by (simp add: well_formed_def)
  have "used q - m \<le> used q" using le by (simp add: word_le_nat_alt unat_sub)
  with ule wf have "well_formed q'" by (simp add: q' well_formed_def)
  then show ?thesis
    using pop_copy_contents [OF wf le, of out] by (simp add: r' q' observed_def)
qed

lemma well_formed_consumers [simp]:
  "well_formed (q\<lparr>n_consumers_waiting := k\<rparr>) = well_formed q"
  "contents (q\<lparr>n_consumers_waiting := k\<rparr>) = contents q"
  by (simp_all add: well_formed_def contents_def)

lemma pop_loop_fifo:
  assumes r: "tsqueue_pop_loop q n out = Returned sigs r q'" and wf: "well_formed q"
  shows "observed (elem_size q) r @ contents q' = contents q \<and> well_formed q'
         \<and> elem_size q' = elem_size q \<and> capacity q' = capacity q"
  using r wf pop_exit_fifo [of "q\<lparr>n_consumers_waiting := n_consumers_waiting q - 1\<rparr>" n out 0 sigs r q']
  by (simp add: tsqueue_pop_loop_def split: if_splits)

lemma pop_fifo:
  assumes r: "tsqueue_pop q n out = Returned sigs r q'" and wf: "well_formed q"
  shows "observed (elem_size q) r @ contents q' = contents q \<and> well_formed q'
         \<and> elem_size q' = elem_size q \<and> capacity q' = capacity q"
proof (cases "n > capacity q")
  case True
  with r wf show ?thesis
    using pop_exit_fifo [of q n out TSQUEUE_TOO_MANY sigs r q'] by (simp add: tsqueue_pop_def)
next
  case False
  with r wf show ?thesis
    using pop_loop_fifo [of "q\<lparr>n_consumers_waiting := n_consumers_waiting q + 1\<rparr>" n out sigs r q']
    by (simp add: tsqueue_pop_def)
qed

subsection \<open>Pops in sequence\<close>

lemma pop_all_contents:
  "pop_all q calls = Some (outs, q') \<Longrightarrow> well_formed q \<Longrightarrow>
     concat outs @ contents q' = contents q \<and> well_formed q'
     \<and> elem_size q' = elem_size q \<and> capacity q' = capacity q"
proof (induction calls arbitrary: q outs)
  case Nil
  then show ?case by simp
next
  case (Cons c calls)
  obtain n out where c: "c = (n, out)" by (cases c)
  from Cons.prems(1) obtain sigs r q1 outs' where p: "tsqueue_pop q n out = Returned sigs r q1"
    and rest: "pop_all q1 calls = Some (outs', q')" and outs: "outs = observed (elem_size q) r # outs'"
    by (auto simp: c split: outcome.splits option.splits)
  from pop_fifo [OF p Cons.prems(2)] have one: "observed (elem_size q) r @ contents q1 = contents q"
    and wf1: "well_formed q1" and same: "elem_size q1 = elem_size q" "capacity q1 = capacity q"
    by simp_all
  from Cons.IH [OF rest wf1] one same show ?case
    by (simp add: outs)
qed

subsection \<open>What every segment keeps\<close>

text \<open>The fields of the queue after each segment, and the bound on \<open>used\<close>.\<close>

lemma wfs_exit_state [simp]: "state_of (wait_for_space_internal_exit q r) = q"
  by (simp add: wait_for_space_internal_exit_def)

lemma wfs_loop_state:
  "state_of (wait_for_space_internal_loop q n) = q
   \<or> state_of (wait_for_space_internal_loop q n) = q\<lparr>producer_n_elems := 0\<rparr>"
  by (simp add: wait_for_space_internal_loop_def)

lemma wfs_state:
  "state_of (wait_for_space_internal q n) = q
   \<or> state_of (wait_for_space_internal q n) = q\<lparr>producer_n_elems := n\<rparr>
   \<or> state_of (wait_for_space_internal q n) = q\<lparr>producer_n_elems := 0\<rparr>"
  using wfs_loop_state [of "q\<lparr>producer_n_elems := n\<rparr>" n]
  by (auto simp: wait_for_space_internal_def Let_def)

lemma put_exit_bounds:
  assumes "used (state_of w) \<le> capacity (state_of w)"
    and "\<And>s q1. w = Returned s 0 q1 \<Longrightarrow> \<not> capacity q1 - used q1 < n"
  shows "used (state_of (tsqueue_put_exit n inp w)) \<le> capacity (state_of w)
         \<and> capacity (state_of (tsqueue_put_exit n inp w)) = capacity (state_of w)
         \<and> elem_size (state_of (tsqueue_put_exit n inp w)) = elem_size (state_of w)"
proof (cases w)
  case (Blocked s c q1)
  with assms show ?thesis by simp
next
  case (Returned s r q1)
  with assms fits_le [of "used q1" "capacity q1" n] show ?thesis by simp
qed

lemma wfs_loop_fields [simp]:
  "used (state_of (wait_for_space_internal_loop q n)) = used q"
  "capacity (state_of (wait_for_space_internal_loop q n)) = capacity q"
  "elem_size (state_of (wait_for_space_internal_loop q n)) = elem_size q"
  using wfs_loop_state [of q n] by auto

lemma wfs_fields [simp]:
  "used (state_of (wait_for_space_internal q n)) = used q"
  "capacity (state_of (wait_for_space_internal q n)) = capacity q"
  "elem_size (state_of (wait_for_space_internal q n)) = elem_size q"
  using wfs_state [of q n] by auto

lemma put_bounds:
  assumes "used q \<le> capacity q"
  shows "used (state_of (tsqueue_put q n inp)) \<le> capacity q
         \<and> capacity (state_of (tsqueue_put q n inp)) = capacity q
         \<and> elem_size (state_of (tsqueue_put q n inp)) = elem_size q"
  unfolding tsqueue_put_def
  using put_exit_bounds [of "wait_for_space_internal q n" n inp] assms wfs_zero [of q n]
  by fastforce

lemma put_wake_bounds:
  assumes "used q \<le> capacity q"
  shows "used (state_of (tsqueue_put_wake q n inp)) \<le> capacity q
         \<and> capacity (state_of (tsqueue_put_wake q n inp)) = capacity q
         \<and> elem_size (state_of (tsqueue_put_wake q n inp)) = elem_size q"
  unfolding tsqueue_put_wake_def
  using put_exit_bounds [of "wait_for_space_internal_loop q n" n inp] assms wfs_loop_zero [of q n]
  by fastforce

lemma pop_exit_bounds:
  assumes "used q \<le> capacity q"
  shows "used (state_of (tsqueue_pop_exit q n out r)) \<le> capacity q
         \<and> capacity (state_of (tsqueue_pop_exit q n out r)) = capacity q
         \<and> elem_size (state_of (tsqueue_pop_exit q n out r)) = elem_size q"
proof -
  have "used q - n \<le> used q" if "n \<le> used q" for n
    using that by (simp add: word_le_nat_alt unat_sub)
  with assms show ?thesis
    by (auto simp: tsqueue_pop_exit_def Let_def not_less intro: order_trans)
qed

lemma pop_loop_bounds:
  assumes "used q \<le> capacity q"
  shows "used (state_of (tsqueue_pop_loop q n out)) \<le> capacity q
         \<and> capacity (state_of (tsqueue_pop_loop q n out)) = capacity q
         \<and> elem_size (state_of (tsqueue_pop_loop q n out)) = elem_size q"
  using assms pop_exit_bounds [of "q\<lparr>n_consumers_waiting := n_consumers_waiting q - 1\<rparr>" n out 0]
  by (simp add: tsqueue_pop_loop_def)

lemma pop_bounds:
  assumes "used q \<le> capacity q"
  shows "used (state_of (tsqueue_pop q n out)) \<le> capacity q
         \<and> capacity (state_of (tsqueue_pop q n out)) = capacity q
         \<and> elem_size (state_of (tsqueue_pop q n out)) = elem_size q"
  using assms pop_exit_bounds [of q n out TSQUEUE_TOO_MANY]
    pop_loop_bounds [of "q\<lparr>n_consumers_waiting := n_consumers_waiting q + 1\<rparr>" n out]
  by (simp add: tsqueue_pop_def)

lemma close_loop_state [simp]: "state_of (tsqueue_close_loop sigs q) = q"
  by (simp add: tsqueue_close_loop_def)

lemma segment_bounds:
  assumes "used q \<le> capacity q"
  shows "used (segment ev q) \<le> capacity q
         \<and> capacity (segment ev q) = capacity q \<and> elem_size (segment ev q) = elem_size q"
proof (cases ev)
  case (Put n inp)
  with put_bounds [OF assms] show ?thesis by simp
next
  case (Put_wake n inp)
  with put_wake_bounds [OF assms] show ?thesis by simp
next
  case (Pop n out)
  with pop_bounds [OF assms] show ?thesis by simp
next
  case (Pop_wake n out)
  with pop_loop_bounds [OF assms] show ?thesis by (simp add: tsqueue_pop_wake_def)
qed (use assms in \<open>simp_all add: tsqueue_capacity_def tsqueue_wait_for_space_def
      tsqueue_wait_for_space_wake_def tsqueue_set_done_def tsqueue_close_def Let_def
      tsqueue_close_wake_def\<close>)

lemma run_bounds:
  "used q \<le> capacity q \<Longrightarrow>
     used (run evs q) \<le> capacity q
     \<and> capacity (run evs q) = capacity q \<and> elem_size (run evs q) = elem_size q"
proof (induction evs arbitrary: q)
  case Nil
  then show ?case by (simp add: run_def)
next
  case (Cons ev evs)
  from segment_bounds [OF Cons.prems, of ev] Cons.IH [of "segment ev q"]
  show ?case by (simp add: run_def)
qed

subsection \<open>Regions of a given length\<close>

lemma region_0 [simp]: "region m off 0 = []"
  by (simp add: region_def)

lemma region_Suc: "region m off (Suc n) = m off # region m (Suc off) n"
  by (rule nth_equalityI) (auto simp: region_nth nth_Cons')

lemma region_numeral [simp]:
  "region m off (numeral k) = m off # region m (Suc off) (pred_numeral k)"
  by (simp add: numeral_eq_Suc region_Suc)

lemma region_1 [simp]: "region m off 1 = [m off]"
  using region_Suc [of m off 0] by simp

text \<open>The queue a successful \<open>tsqueue_create\<close> builds.\<close>

lemma create_success:
  assumes "tsqueue_create os queue_out dat cap es usd = Create_returned 0 (Some q) live"
  shows "q = new_queue dat cap es usd"
  using assms by (simp add: tsqueue_create_def Let_def split: if_splits prod.splits)

subsection \<open>A closed queue\<close>

lemma put_exit_die: "die (state_of w) \<Longrightarrow> die (state_of (tsqueue_put_exit n inp w))"
  by (cases w) simp_all

lemma wfs_loop_die: "die q \<Longrightarrow> die (state_of (wait_for_space_internal_loop q n))"
  using wfs_loop_state [of q n] by auto

lemma wfs_die: "die q \<Longrightarrow> die (state_of (wait_for_space_internal q n))"
  using wfs_state [of q n] by auto

lemma pop_exit_die: "die q \<Longrightarrow> state_of (tsqueue_pop_exit q n out r) = q"
  by (simp add: tsqueue_pop_exit_def)

lemma segment_die: "die q \<Longrightarrow> die (segment ev q)"
proof (cases ev)
  case (Put n inp)
  assume "die q"
  then show ?thesis by (simp add: Put tsqueue_put_def put_exit_die wfs_die)
next
  case (Put_wake n inp)
  assume "die q"
  then show ?thesis by (simp add: Put_wake tsqueue_put_wake_def put_exit_die wfs_loop_die)
qed (simp_all add: tsqueue_capacity_def tsqueue_wait_for_space_def wfs_die
      tsqueue_wait_for_space_wake_def wfs_loop_die tsqueue_pop_def tsqueue_pop_wake_def
      tsqueue_pop_loop_def pop_exit_die tsqueue_set_done_def tsqueue_close_def
      tsqueue_close_wake_def Let_def)

lemma run_die: "die q \<Longrightarrow> die (run evs q)"
proof (induction evs arbitrary: q)
  case Nil
  then show ?case by (simp add: run_def)
next
  case (Cons ev evs)
  from Cons.IH [OF segment_die [OF Cons.prems, of ev]] show ?case by (simp add: run_def)
qed

lemma close_sets_die: "die (state_of (tsqueue_close q))"
  by (simp add: tsqueue_close_def Let_def)

lemma closed_wait_for_space:
  assumes "die q"
  shows "wait_for_space_internal q n = Returned (signal_if_all_dead q) TSQUEUE_CLOSED q"
proof (cases "capacity q < n \<or> producer_n_elems q \<noteq> 0")
  case True
  with assms show ?thesis
    by (auto simp: wait_for_space_internal_def wait_for_space_internal_exit_def Let_def)
next
  case False
  then have "q\<lparr>producer_n_elems := 0\<rparr> = q" by simp
  with False assms show ?thesis
    by (simp add: wait_for_space_internal_def wait_for_space_internal_loop_def
        wait_for_space_internal_exit_def signal_if_all_dead_def)
qed

lemma closed_wait_for_space_wake:
  assumes "die q"
  shows "wait_for_space_internal_loop q n
         = Returned (signal_if_all_dead (q\<lparr>producer_n_elems := 0\<rparr>)) TSQUEUE_CLOSED
             (q\<lparr>producer_n_elems := 0\<rparr>)"
  using assms by (simp add: wait_for_space_internal_loop_def wait_for_space_internal_exit_def)

lemma closed_pop:
  assumes "die q"
  shows "tsqueue_pop q n out = Returned (signal_if_all_dead q) (TSQUEUE_CLOSED, 0, out) q"
proof (cases "capacity q < n")
  case True
  with assms show ?thesis by (simp add: tsqueue_pop_def tsqueue_pop_exit_def)
next
  case False
  have "q\<lparr>n_consumers_waiting := n_consumers_waiting q\<rparr> = q" by simp
  with False assms show ?thesis
    by (simp add: tsqueue_pop_def tsqueue_pop_loop_def tsqueue_pop_exit_def signal_if_all_dead_def)
qed

lemma closed_pop_wake:
  assumes "die q"
  shows "tsqueue_pop_wake q n out
         = Returned (signal_if_all_dead (q\<lparr>n_consumers_waiting := n_consumers_waiting q - 1\<rparr>))
             (TSQUEUE_CLOSED, 0, out) (q\<lparr>n_consumers_waiting := n_consumers_waiting q - 1\<rparr>)"
  using assms by (simp add: tsqueue_pop_wake_def tsqueue_pop_loop_def tsqueue_pop_exit_def)

subsection \<open>A pop that does not wait\<close>

lemma memcpy_nothing [simp]: "memcpy dst doff src soff 0 = dst"
  by (rule ext) (auto simp: memcpy_def)

lemma memmove_nothing [simp]: "memmove m doff soff 0 = m"
  by (rule ext) (auto simp: memmove_def)

lemma pop_exit_open:
  assumes "\<not> die q"
  shows "tsqueue_pop_exit q n out 0
         = Returned
             ((if producer_n_elems q \<noteq> 0 \<and> producer_n_elems q \<le> capacity q - (used q - min n (used q))
               then [producer_wakeup] else [])
              @ (if used q - min n (used q) \<noteq> 0 \<and> n_consumers_waiting q \<noteq> 0
                 then [consumer_wakeup] else []))
             (0, min n (used q), memcpy out 0 (data q) 0 (unat (min n (used q) * elem_size q)))
             (q\<lparr>used := used q - min n (used q),
                data := memmove (data q) 0 (unat (min n (used q) * elem_size q))
                          (unat ((used q - min n (used q)) * elem_size q))\<rparr>)"
proof -
  have m: "(if used q < n then used q else n) = min n (used q)" by (auto simp: min_def)
  show ?thesis using assms
    by (simp add: tsqueue_pop_exit_def Let_def m)
qed

lemma pop_done:
  assumes "producers_done q" "\<not> die q" "n \<le> capacity q"
  shows "\<exists>sigs out' q'. tsqueue_pop q n out = Returned sigs (0, min n (used q), out') q'
           \<and> used q' = used q - min n (used q)"
proof -
  from assms(3) have "\<not> capacity q < n" by (simp add: not_less)
  with assms show ?thesis
    by (simp add: tsqueue_pop_def tsqueue_pop_loop_def pop_exit_open)
qed

lemma pop_wake_done:
  assumes "producers_done q" "\<not> die q"
  shows "\<exists>sigs out' q'. tsqueue_pop_wake q n out = Returned sigs (0, min n (used q), out') q'
           \<and> used q' = used q - min n (used q)"
  using assms
  by (simp add: tsqueue_pop_wake_def tsqueue_pop_loop_def pop_exit_open)

lemma put_on_new_queue:
  assumes "n \<le> cap"
  shows "tsqueue_put (new_queue dat cap es 0) n inp
         = Returned [] 0
             ((new_queue dat cap es 0)
                \<lparr>data := memcpy dat 0 inp 0 (unat (n * es)), used := n\<rparr>)"
proof -
  from assms have "\<not> cap < n" by (simp add: not_less)
  then show ?thesis
    by (simp add: tsqueue_put_def wait_for_space_internal_def wait_for_space_internal_loop_def
        wait_for_space_internal_exit_def new_queue_def)
qed

lemma pop_done_exit:
  assumes "producers_done q" "\<not> die q" "n \<le> capacity q"
  shows "tsqueue_pop q n out = tsqueue_pop_exit q n out 0"
proof -
  from assms(3) have "\<not> capacity q < n" by (simp add: not_less)
  with assms show ?thesis by (simp add: tsqueue_pop_def tsqueue_pop_loop_def)
qed

lemma soft_completion_scenario:
  assumes "5 * unat es < 2 ^ 64"
  shows "\<exists>s1 q1 s2 out' q2 s3 q3.
           tsqueue_put (new_queue dat 5 es 0) 2 inp = Returned s1 0 q1
         \<and> tsqueue_pop (state_of (tsqueue_set_done q1 True)) 5 out = Returned s2 (0, 2, out') q2
         \<and> region out' 0 (2 * unat es) = region inp 0 (2 * unat es)
         \<and> tsqueue_pop q2 1 out2 = Returned s3 (0, 0, out2) q3"
proof -
  have "unat ((2 :: size_t) * es) = unat (2 :: size_t) * unat es"
    using assms by (intro unat_mult_le [of 2 5 es]) simp_all
  then have len: "unat (2 * es) = 2 * unat es" by simp
  define q1 where "q1 = (new_queue dat 5 es 0)
                \<lparr>data := memcpy dat 0 inp 0 (unat (2 * es)), used := 2\<rparr>"
  define q2 where "q2 = state_of (tsqueue_set_done q1 True)"
  define out' where "out' = memcpy out 0 (data q2) 0 (unat (2 * es))"
  define q3 where "q3 = q2\<lparr>used := 0, data := memmove (data q2) 0 (unat (2 * es)) 0\<rparr>"
  have put: "tsqueue_put (new_queue dat 5 es 0) 2 inp = Returned [] 0 q1"
    unfolding q1_def by (rule put_on_new_queue) simp
  have q2: "producers_done q2" "\<not> die q2" "capacity q2 = 5" "used q2 = 2" "elem_size q2 = es"
    "producer_n_elems q2 = 0" "data q2 = memcpy dat 0 inp 0 (unat (2 * es))"
    by (simp_all add: q2_def q1_def tsqueue_set_done_def new_queue_def)
  have "tsqueue_pop q2 5 out = tsqueue_pop_exit q2 5 out 0"
    using q2 by (intro pop_done_exit) simp_all
  then have pop1: "tsqueue_pop q2 5 out = Returned [] (0, 2, out') q3"
    using q2 by (simp add: pop_exit_open out'_def q3_def)
  have copied: "region out' 0 (2 * unat es) = region inp 0 (2 * unat es)"
    by (simp add: out'_def q2 len region_memcpy_dst)
  have q3: "producers_done q3" "\<not> die q3" "capacity q3 = 5" "used q3 = 0"
    "producer_n_elems q3 = 0"
    using q2 by (simp_all add: q3_def)
  have "tsqueue_pop q3 1 out2 = tsqueue_pop_exit q3 1 out2 0"
    using q3 by (intro pop_done_exit) simp_all
  then have pop2: "tsqueue_pop q3 1 out2 = Returned [] (0, 0, out2) q3"
    using q3 by (simp add: pop_exit_open)
  from put pop1 copied pop2 show ?thesis unfolding q2_def by blast
qed

subsection \<open>Creation with every resource granted\<close>

lemma create_all_succeed:
  assumes "malloc_ret os \<noteq> None" "mutex_init_ret os = 0" "producer_wakeup_init_ret os = 0"
    "consumer_wakeup_init_ret os = 0" "all_dead_init_ret os = 0"
  shows "tsqueue_create os (Some p) dat cap es usd
         = Create_returned 0 (Some (new_queue dat cap es usd))
             [Queue_object, Lock, Cond_var producer_wakeup, Cond_var consumer_wakeup,
              Cond_var all_dead]"
  using assms by (simp add: tsqueue_create_def Let_def)

lemma free_space_underflow:
  fixes cap usd :: size_t
  assumes "cap < usd"
  shows "uint (cap - usd) = uint cap - uint usd + 2 ^ 64"
proof -
  from assms have "\<not> uint usd \<le> uint cap" by (simp add: word_less_def)
  then show ?thesis by (simp add: uint_sub_if')
qed

lemma overfull_never_waits:
  fixes cap usd n :: size_t
  assumes "cap < usd" "n \<le> cap"
  shows "\<not> cap - usd < n"
proof -
  have "uint usd < 2 ^ 64" using uint_bounded [of usd] by simp
  moreover have "uint n \<le> uint cap" using assms(2) by (simp add: word_le_def)
  ultimately have "uint n \<le> uint (cap - usd)"
    using free_space_underflow [OF assms(1)] by simp
  then show ?thesis by (simp add: word_less_def)
qed

subsection \<open>Put, pop, destroy\<close>

lemma region_memcpy_inside:
  assumes "a + b \<le> len"
  shows "region (memcpy dst doff src soff len) (doff + a) b = region src (soff + a) b"
  using assms by (intro region_cong) (simp add: memcpy_def ac_simps)

lemma pop_enough_exit:
  assumes "\<not> die q" "n \<le> capacity q" "n \<le> used q"
  shows "tsqueue_pop q n out = tsqueue_pop_exit q n out 0"
proof -
  from assms have "\<not> capacity q < n" "\<not> used q < n" by (simp_all add: not_less)
  with assms show ?thesis by (simp add: tsqueue_pop_def tsqueue_pop_loop_def)
qed

lemma destroy_exit_returned:
  assumes "tsqueue_destroy_exit w c = Returned sigs (left, rel) q'"
  shows "left = (if w then Some (used (state_of c)) else None) \<and> q' = state_of c
         \<and> Backing_store \<notin> set rel"
  using assms by (cases c) auto

lemma destroy_returned:
  assumes "tsqueue_destroy q w = Returned sigs (left, rel) q'"
  shows "left = (if w then Some (used q) else None) \<and> data q' = data q \<and> used q' = used q
         \<and> elem_size q' = elem_size q \<and> Backing_store \<notin> set rel"
  using destroy_exit_returned [OF assms [unfolded tsqueue_destroy_def]]
  by (simp add: tsqueue_close_def Let_def)

lemma destroy_wake_returned:
  assumes "tsqueue_destroy_wake q w = Returned sigs (left, rel) q'"
  shows "left = (if w then Some (used q) else None) \<and> data q' = data q \<and> used q' = used q
         \<and> elem_size q' = elem_size q \<and> Backing_store \<notin> set rel"
  using destroy_exit_returned [OF assms [unfolded tsqueue_destroy_wake_def]]
  by (simp add: tsqueue_close_wake_def)

lemma destroy_scenario:
  assumes "4 * unat es < 2 ^ 64"
  shows "\<exists>s1 q1 s2 out' q2 s3 rel q3.
           tsqueue_put (new_queue dat 4 es 0) 2 inp = Returned s1 0 q1
         \<and> tsqueue_pop q1 1 out = Returned s2 (0, 1, out') q2
         \<and> slot out' es 0 = slot inp es 0
         \<and> tsqueue_destroy q2 True = Returned s3 (Some 1, rel) q3
         \<and> slot (data q3) es 0 = slot inp es 1
         \<and> Backing_store \<notin> set rel"
proof -
  have "unat ((2 :: size_t) * es) = unat (2 :: size_t) * unat es"
    using assms by (intro unat_mult_le [of 2 4 es]) simp_all
  then have len: "unat (2 * es) = 2 * unat es" by simp
  define q1 where "q1 = (new_queue dat 4 es 0)
                \<lparr>data := memcpy dat 0 inp 0 (unat (2 * es)), used := 2\<rparr>"
  define out' where "out' = memcpy out 0 (data q1) 0 (unat es)"
  define q2 where "q2 = q1\<lparr>used := 1, data := memmove (data q1) 0 (unat es) (unat es)\<rparr>"
  have put: "tsqueue_put (new_queue dat 4 es 0) 2 inp = Returned [] 0 q1"
    unfolding q1_def by (rule put_on_new_queue) simp
  have q1: "\<not> die q1" "capacity q1 = 4" "used q1 = 2" "elem_size q1 = es"
    "producer_n_elems q1 = 0" "n_consumers_waiting q1 = 0"
    "data q1 = memcpy dat 0 inp 0 (2 * unat es)"
    by (simp_all add: q1_def new_queue_def len)
  have "tsqueue_pop q1 1 out = tsqueue_pop_exit q1 1 out 0"
    using q1 by (intro pop_enough_exit) simp_all
  then have pop: "tsqueue_pop q1 1 out = Returned [] (0, 1, out') q2"
    using q1(1-6) by (simp add: pop_exit_open out'_def q2_def)
  have first: "slot out' es 0 = slot inp es 0"
    using region_memcpy_inside [of 0 "unat es" "2 * unat es" dat 0 inp 0]
    by (simp add: slot_def out'_def q1 region_memcpy_dst)
  have q2: "producer_n_elems q2 = 0" "n_consumers_waiting q2 = 0" "used q2 = 1"
    using q1 by (simp_all add: q2_def)
  have destroy: "tsqueue_destroy q2 True
                 = Returned [] (Some 1, [Lock, Cond_var producer_wakeup, Cond_var consumer_wakeup,
                     Cond_var all_dead, Queue_object]) (q2\<lparr>die := True\<rparr>)"
    using q2 by (simp add: tsqueue_destroy_def tsqueue_close_def tsqueue_close_loop_def)
  have "region (data q2) 0 (unat es) = region (data q1) (unat es) (unat es)"
    by (simp add: q2_def region_memmove)
  also have "\<dots> = region inp (unat es) (unat es)"
    using region_memcpy_inside [of "unat es" "unat es" "2 * unat es" dat 0 inp 0]
    by (simp add: q1)
  finally have second: "slot (data (q2\<lparr>die := True\<rparr>)) es 0 = slot inp es 1"
    by (simp add: slot_def)
  from put pop first destroy second show ?thesis by fastforce
qed

subsection \<open>Creation with an initialisation that fails\<close>

text \<open>
  When \<open>malloc\<close> succeeds and \<open>pthread_mutex_init\<close> or a \<open>pthread_cond_init\<close> fails,
  \<open>tsqueue_create\<close> returns the error of the first call that failed, builds no queue,
  and has released what it had initialised and the queue object.
\<close>

lemma create_init_failure_releases:
  assumes "malloc_ret os \<noteq> None"
    and "tsqueue_create os (Some p) dat cap es usd = Create_returned r q live"
    and "r \<noteq> 0"
  shows "q = None \<and> live = []
         \<and> r = (if mutex_init_ret os \<noteq> 0 then mutex_init_ret os
                else if producer_wakeup_init_ret os \<noteq> 0 then producer_wakeup_init_ret os
                else if consumer_wakeup_init_ret os \<noteq> 0 then consumer_wakeup_init_ret os
                else all_dead_init_ret os)"
  using assms
  by (auto simp: tsqueue_create_def create_cleanup_def Let_def split: if_splits)

subsection \<open>Every segment acts as the first-in, first-out queue does\<close>

lemma contents_length [simp]: "length (contents q) = unat (used q) * unat (elem_size q)"
  by (simp add: contents_def)

lemma contents_producer [simp]:
  "contents (q\<lparr>producer_n_elems := k\<rparr>) = contents q"
  "well_formed (q\<lparr>producer_n_elems := k\<rparr>) = well_formed q"
  by (simp_all add: contents_def well_formed_def)

lemma wfs_loop_contents [simp]:
  "contents (state_of (wait_for_space_internal_loop q n)) = contents q"
  "well_formed (state_of (wait_for_space_internal_loop q n)) = well_formed q"
  using wfs_loop_state [of q n] by auto

lemma wfs_contents [simp]:
  "contents (state_of (wait_for_space_internal q n)) = contents q"
  "well_formed (state_of (wait_for_space_internal q n)) = well_formed q"
  using wfs_state [of q n] by auto

lemma put_wake_zero:
  assumes "tsqueue_put_wake q n inp = Returned sigs 0 q'" and wf: "well_formed q"
  shows "contents q' = contents q @ region inp 0 (unat n * unat (elem_size q))"
    and "well_formed q'" and "elem_size q' = elem_size q" and "capacity q' = capacity q"
proof -
  from assms(1) obtain s q1 where w: "wait_for_space_internal_loop q n = Returned s 0 q1"
    and q': "q' = q1\<lparr>data := memcpy (data q1) (unat (used q1 * elem_size q1)) inp 0 (unat (n * elem_size q1)),
              used := used q1 + n\<rparr>"
    unfolding tsqueue_put_wake_def by (rule put_exit_zero)
  from wfs_loop_zero [OF w] have fit: "\<not> capacity q - used q < n" and q1: "q1 = q\<lparr>producer_n_elems := 0\<rparr>"
    by simp_all
  show "contents q' = contents q @ region inp 0 (unat n * unat (elem_size q))"
    using append_contents [OF wf fit, of inp] by (simp add: q' q1)
  show "well_formed q'" using append_well_formed [OF wf fit] by (simp add: q' q1)
  show "elem_size q' = elem_size q" "capacity q' = capacity q" by (simp_all add: q' q1)
qed

lemma put_exit_other:
  assumes "\<And>s q1. w \<noteq> Returned s 0 q1"
  shows "state_of (tsqueue_put_exit n inp w) = state_of w \<and> put_io es n inp (tsqueue_put_exit n inp w) = []"
  using assms by (cases w) auto

lemma put_exit_io_zero:
  assumes "w = Returned s 0 q1"
  shows "put_io es n inp (tsqueue_put_exit n inp w) = [Inserted (region inp 0 (unat n * unat es))]"
  using assms by simp

lemma put_step:
  assumes wf: "well_formed q"
  shows "fifo (io_of (Put n inp) q @ ios) (contents q) = fifo ios (contents (segment (Put n inp) q))
         \<and> well_formed (segment (Put n inp) q)"
proof (cases "\<exists>s q1. wait_for_space_internal q n = Returned s 0 q1")
  case True
  then obtain s q1 where w: "wait_for_space_internal q n = Returned s 0 q1" by blast
  then obtain sigs q' where p: "tsqueue_put q n inp = Returned sigs 0 q'"
    by (simp add: tsqueue_put_def)
  from put_zero [OF p wf] p show ?thesis by simp
next
  case False
  then have "\<And>s q1. wait_for_space_internal q n \<noteq> Returned s 0 q1" by blast
  from put_exit_other [OF this, of n inp "elem_size q"] wf show ?thesis
    by (simp add: tsqueue_put_def)
qed

lemma put_wake_step:
  assumes wf: "well_formed q"
  shows "fifo (io_of (Put_wake n inp) q @ ios) (contents q)
           = fifo ios (contents (segment (Put_wake n inp) q))
         \<and> well_formed (segment (Put_wake n inp) q)"
proof (cases "\<exists>s q1. wait_for_space_internal_loop q n = Returned s 0 q1")
  case True
  then obtain s q1 where w: "wait_for_space_internal_loop q n = Returned s 0 q1" by blast
  then obtain sigs q' where p: "tsqueue_put_wake q n inp = Returned sigs 0 q'"
    by (simp add: tsqueue_put_wake_def)
  from put_wake_zero [OF p wf] p show ?thesis by simp
next
  case False
  then have "\<And>s q1. wait_for_space_internal_loop q n \<noteq> Returned s 0 q1" by blast
  from put_exit_other [OF this, of n inp "elem_size q"] wf show ?thesis
    by (simp add: tsqueue_put_wake_def)
qed

lemma pop_exit_zero:
  assumes "tsqueue_pop_exit q n out r0 = Returned sigs (0, k, out') q'"
  shows "\<not> die q \<and> r0 = 0 \<and> k = min n (used q)"
proof -
  from assms have d: "\<not> die q" and r: "r0 = 0"
    by (auto simp: tsqueue_pop_exit_def Let_def split: if_splits)
  from assms show ?thesis using d r by (simp add: pop_exit_open)
qed

lemma take_whole_elements:
  fixes n u :: size_t
  assumes "length xs = unat u * e"
  shows "take (unat (min n u) * e) xs = take (unat n * e) xs"
    and "drop (unat (min n u) * e) xs = drop (unat n * e) xs"
proof -
  have "min n u = n \<or> (min n u = u \<and> unat u \<le> unat n)"
    by (auto simp: min_def word_le_nat_alt)
  then show "take (unat (min n u) * e) xs = take (unat n * e) xs"
    and "drop (unat (min n u) * e) xs = drop (unat n * e) xs"
    using assms by (auto simp: mult_le_mono1)
qed

lemma pop_exit_exact:
  assumes r: "tsqueue_pop_exit q n out r0 = Returned sigs (0, k, out') q'" and wf: "well_formed q"
  shows "k = min n (used q)"
    and "observed (elem_size q) (0, k, out') = take (unat n * unat (elem_size q)) (contents q)"
    and "contents q' = drop (unat n * unat (elem_size q)) (contents q)"
proof -
  let ?e = "unat (elem_size q)"
  from pop_exit_zero [OF r] show k: "k = min n (used q)" by simp
  from pop_exit_fifo [OF r wf]
  have c: "observed (elem_size q) (0, k, out') @ contents q' = contents q" by simp
  have l: "length (observed (elem_size q) (0, k, out')) = unat k * ?e"
    by (simp add: observed_def)
  from c l have "observed (elem_size q) (0, k, out') = take (unat k * ?e) (contents q)"
    by (metis append_eq_conv_conj)
  then show "observed (elem_size q) (0, k, out') = take (unat n * ?e) (contents q)"
    using take_whole_elements(1) [of "contents q" "used q" ?e n] by (simp add: k)
  from c l have "contents q' = drop (unat k * ?e) (contents q)"
    by (metis append_eq_conv_conj)
  then show "contents q' = drop (unat n * ?e) (contents q)"
    using take_whole_elements(2) [of "contents q" "used q" ?e n] by (simp add: k)
qed

lemma pop_exit_step:
  assumes wf: "well_formed q"
  shows "fifo (pop_io (elem_size q) n (tsqueue_pop_exit q n out r0) @ ios) (contents q)
           = fifo ios (contents (state_of (tsqueue_pop_exit q n out r0)))
         \<and> well_formed (state_of (tsqueue_pop_exit q n out r0))"
proof -
  obtain sigs r q' where p: "tsqueue_pop_exit q n out r0 = Returned sigs r q'"
    by (cases "tsqueue_pop_exit q n out r0")
       (auto simp: tsqueue_pop_exit_def Let_def split: if_splits prod.splits)
  obtain retval k out' where r: "r = (retval, k, out')" by (cases r)
  note f = pop_exit_fifo [OF p wf]
  show ?thesis
  proof (cases "retval = 0")
    case True
    with p r have p0: "tsqueue_pop_exit q n out r0 = Returned sigs (0, k, out') q'" by simp
    from pop_exit_exact [OF p0 wf] f show ?thesis by (simp add: p r True)
  next
    case False
    with f show ?thesis by (simp add: p r observed_def)
  qed
qed

lemma pop_loop_step:
  assumes wf: "well_formed q"
  shows "fifo (pop_io (elem_size q) n (tsqueue_pop_loop q n out) @ ios) (contents q)
           = fifo ios (contents (state_of (tsqueue_pop_loop q n out)))
         \<and> well_formed (state_of (tsqueue_pop_loop q n out))"
  using wf pop_exit_step [of "q\<lparr>n_consumers_waiting := n_consumers_waiting q - 1\<rparr>" n out 0 ios]
  by (simp add: tsqueue_pop_loop_def)

lemma pop_step:
  assumes wf: "well_formed q"
  shows "fifo (io_of (Pop n out) q @ ios) (contents q) = fifo ios (contents (segment (Pop n out) q))
         \<and> well_formed (segment (Pop n out) q)"
  using wf pop_exit_step [of q n out TSQUEUE_TOO_MANY ios]
    pop_loop_step [of "q\<lparr>n_consumers_waiting := n_consumers_waiting q + 1\<rparr>" n out ios]
  by (simp add: tsqueue_pop_def)

lemma pop_wake_step:
  assumes wf: "well_formed q"
  shows "fifo (io_of (Pop_wake n out) q @ ios) (contents q)
           = fifo ios (contents (segment (Pop_wake n out) q))
         \<and> well_formed (segment (Pop_wake n out) q)"
  using pop_loop_step [OF wf, of n out ios] by (simp add: tsqueue_pop_wake_def)

lemma contents_flags [simp]:
  "contents (q\<lparr>producers_done := b\<rparr>) = contents q"
  "well_formed (q\<lparr>producers_done := b\<rparr>) = well_formed q"
  "contents (q\<lparr>die := b\<rparr>) = contents q"
  "well_formed (q\<lparr>die := b\<rparr>) = well_formed q"
  by (simp_all add: contents_def well_formed_def)

lemma segment_step:
  assumes wf: "well_formed q"
  shows "fifo (io_of ev q @ ios) (contents q) = fifo ios (contents (segment ev q))
         \<and> well_formed (segment ev q)"
proof (cases ev)
  case (Put n inp)
  with put_step [OF wf] show ?thesis by simp
next
  case (Put_wake n inp)
  with put_wake_step [OF wf] show ?thesis by simp
next
  case (Pop n out)
  with pop_step [OF wf] show ?thesis by simp
next
  case (Pop_wake n out)
  with pop_wake_step [OF wf] show ?thesis by simp
qed (use wf in \<open>simp_all add: tsqueue_capacity_def tsqueue_wait_for_space_def
      tsqueue_wait_for_space_wake_def tsqueue_set_done_def tsqueue_close_def Let_def
      tsqueue_close_wake_def\<close>)

lemma trace_fifo:
  "well_formed q \<Longrightarrow> fifo (trace evs q @ ios) (contents q) = fifo ios (contents (run evs q))"
proof (induction evs arbitrary: q)
  case Nil
  then show ?case by (simp add: run_def)
next
  case (Cons ev evs)
  from segment_step [OF Cons.prems, of ev "trace evs (segment ev q) @ ios"]
  have "fifo (trace (ev # evs) q @ ios) (contents q)
        = fifo (trace evs (segment ev q) @ ios) (contents (segment ev q))"
    and wf': "well_formed (segment ev q)" by simp_all
  with Cons.IH [OF wf'] show ?case by (simp add: run_def)
qed

lemma run_well_formed: "well_formed q \<Longrightarrow> well_formed (run evs q)"
proof (induction evs arbitrary: q)
  case Nil
  then show ?case by (simp add: run_def)
next
  case (Cons ev evs)
  from segment_step [OF Cons.prems, of ev "[]"] have "well_formed (segment ev q)" by simp
  from Cons.IH [OF this] show ?case by (simp add: run_def)
qed

subsection \<open>A pop that returns fewer elements than asked\<close>

lemma short_batch_means_open:
  assumes "tsqueue_pop q n out = Returned sigs (0, k, out') q'" "k < n"
  shows "\<not> die q \<and> \<not> capacity q < n \<and> used q < n"
proof -
  from assms(1) have c: "\<not> capacity q < n"
    by (auto simp: tsqueue_pop_def tsqueue_pop_exit_def split: if_splits)
  with assms(1) have "tsqueue_pop_exit (q\<lparr>n_consumers_waiting := n_consumers_waiting q + 1 - 1\<rparr>) n out 0
               = Returned sigs (0, k, out') q'"
    by (auto simp: tsqueue_pop_def tsqueue_pop_loop_def split: if_splits)
  from pop_exit_zero [OF this] assms(2) c show ?thesis by (auto simp: min_def split: if_splits)
qed

lemma short_batch_wake_means_open:
  assumes "tsqueue_pop_wake q n out = Returned sigs (0, k, out') q'" "k < n"
  shows "\<not> die q \<and> used q < n"
proof -
  from assms(1) have "tsqueue_pop_exit (q\<lparr>n_consumers_waiting := n_consumers_waiting q - 1\<rparr>) n out 0
               = Returned sigs (0, k, out') q'"
    by (auto simp: tsqueue_pop_wake_def tsqueue_pop_loop_def split: if_splits)
  from pop_exit_zero [OF this] assms(2) show ?thesis by (auto simp: min_def split: if_splits)
qed

section \<open>FIFO order\<close>

text \<open>
  C5. Through every sequence of segments, that is calls of \<open>tsqueue_put\<close> and
  \<open>tsqueue_pop\<close> in any order and with batches of any sizes, each returning at once or
  after a wait, the queue acts as a first-in, first-out list: what the successful puts
  inserted and what the successful pops showed, replayed in order on the list the
  queue held at first, gives the list it holds at the end, each pop having shown the
  oldest elements, as many as asked or all there were. So pops that follow puts show
  the elements inserted, in insertion order, however the batches are cut on either
  side. Call by call: a put that returns 0 appends its elements after the valid ones,
  and a pop that returns 0 returns \<open>min(n_elems, used)\<close> elements, the oldest, in order,
  and leaves the others.
\<close>

theorem fifo_order:
  "(well_formed q \<longrightarrow> fifo (trace evs q) (contents q) = Some (contents (run evs q)))
   \<and> (well_formed q
        \<and> (tsqueue_put q n inp = Returned sigs 0 q'
            \<or> tsqueue_put_wake q n inp = Returned sigs 0 q') \<longrightarrow>
        contents q' = contents q @ region inp 0 (unat n * unat (elem_size q)))
   \<and> (well_formed q
        \<and> (tsqueue_pop q m out = Returned sigs2 (0, k, out') q2
            \<or> tsqueue_pop_wake q m out = Returned sigs2 (0, k, out') q2) \<longrightarrow>
        k = min m (used q)
      \<and> region out' 0 (unat k * unat (elem_size q))
          = take (unat m * unat (elem_size q)) (contents q)
      \<and> contents q2 = drop (unat m * unat (elem_size q)) (contents q))"
proof -
  have A: "fifo (trace evs q) (contents q) = Some (contents (run evs q))" if "well_formed q"
    using trace_fifo [OF that, of evs "[]"] by simp
  have B: "contents q' = contents q @ region inp 0 (unat n * unat (elem_size q))"
    if "well_formed q" "tsqueue_put q n inp = Returned sigs 0 q'
            \<or> tsqueue_put_wake q n inp = Returned sigs 0 q'"
    using that put_zero(1) [of q n inp sigs q'] put_wake_zero(1) [of q n inp sigs q'] by blast
  have C: "k = min m (used q)
      \<and> region out' 0 (unat k * unat (elem_size q))
          = take (unat m * unat (elem_size q)) (contents q)
      \<and> contents q2 = drop (unat m * unat (elem_size q)) (contents q)"
    if wf: "well_formed q" and a: "tsqueue_pop q m out = Returned sigs2 (0, k, out') q2
            \<or> tsqueue_pop_wake q m out = Returned sigs2 (0, k, out') q2"
  proof -
    from a obtain q0 where e: "tsqueue_pop_exit q0 m out 0 = Returned sigs2 (0, k, out') q2"
      and same: "used q0 = used q" "elem_size q0 = elem_size q" "contents q0 = contents q"
        "well_formed q0"
    proof
      assume "tsqueue_pop q m out = Returned sigs2 (0, k, out') q2"
      then have "tsqueue_pop_exit (q\<lparr>n_consumers_waiting := n_consumers_waiting q + 1 - 1\<rparr>) m out 0
                 = Returned sigs2 (0, k, out') q2"
        by (auto simp: tsqueue_pop_def tsqueue_pop_loop_def tsqueue_pop_exit_def
            split: if_splits)
      with wf that show ?thesis by simp
    next
      assume "tsqueue_pop_wake q m out = Returned sigs2 (0, k, out') q2"
      then have "tsqueue_pop_exit (q\<lparr>n_consumers_waiting := n_consumers_waiting q - 1\<rparr>) m out 0
                 = Returned sigs2 (0, k, out') q2"
        by (auto simp: tsqueue_pop_wake_def tsqueue_pop_loop_def split: if_splits)
      with wf that show ?thesis by simp
    qed
    from pop_exit_exact [OF e same(4)] same show ?thesis by (simp add: observed_def)
  qed
  from A B C show ?thesis by blast
qed

text \<open>
  \<open>put([1,2,3])\<close>, then \<open>pop(1)\<close> and \<open>pop(2)\<close>, shows 1 and then 2, 3. On a full queue
  holding 1, 2, \<open>put([3])\<close> waits; after \<open>pop(1)\<close> has shown 1 it wakes and returns 0, and
  \<open>pop(2)\<close> shows 2, 3.
\<close>

theorem fifo_order_witness:
  "well_formed (new_queue (mem_of []) 3 1 0)
   \<and> trace [Put 3 (mem_of [1, 2, 3]), Pop 1 (mem_of []), Pop 2 (mem_of [])]
        (new_queue (mem_of []) 3 1 0)
       = [Inserted [1, 2, 3], Popped 1 [1], Popped 2 [2, 3]]
   \<and> fifo (trace [Put 3 (mem_of [1, 2, 3]), Pop 1 (mem_of []), Pop 2 (mem_of [])]
              (new_queue (mem_of []) 3 1 0))
        (contents (new_queue (mem_of []) 3 1 0))
       = Some (contents (run [Put 3 (mem_of [1, 2, 3]), Pop 1 (mem_of []), Pop 2 (mem_of [])]
                 (new_queue (mem_of []) 3 1 0)))
   \<and> well_formed (new_queue (mem_of [1, 2]) 2 1 2)
   \<and> trace [Put 1 (mem_of [3]), Pop 1 (mem_of []), Put_wake 1 (mem_of [3]), Pop 2 (mem_of [])]
        (new_queue (mem_of [1, 2]) 2 1 2)
       = [Popped 1 [1], Inserted [3], Popped 2 [2, 3]]
   \<and> fifo (trace [Put 1 (mem_of [3]), Pop 1 (mem_of []), Put_wake 1 (mem_of [3]),
               Pop 2 (mem_of [])] (new_queue (mem_of [1, 2]) 2 1 2))
        (contents (new_queue (mem_of [1, 2]) 2 1 2))
       = Some (contents (run [Put 1 (mem_of [3]), Pop 1 (mem_of []), Put_wake 1 (mem_of [3]),
                 Pop 2 (mem_of [])] (new_queue (mem_of [1, 2]) 2 1 2)))
   \<and> is_blocked (tsqueue_put (new_queue (mem_of [1, 2]) 2 1 2) 1 (mem_of [3]))
   \<and> (\<exists>sigs q'.
         tsqueue_put_wake (run [Put 1 (mem_of [3]), Pop 1 (mem_of [])]
             (new_queue (mem_of [1, 2]) 2 1 2)) 1 (mem_of [3])
           = Returned sigs 0 q'
       \<and> contents q'
           = contents (run [Put 1 (mem_of [3]), Pop 1 (mem_of [])]
               (new_queue (mem_of [1, 2]) 2 1 2))
             @ region (mem_of [3]) 0
                 (unat (1 :: size_t)
                  * unat (elem_size (run [Put 1 (mem_of [3]), Pop 1 (mem_of [])]
                      (new_queue (mem_of [1, 2]) 2 1 2)))))
   \<and> (\<exists>sigs out' q'.
         tsqueue_pop (new_queue (mem_of [1, 2]) 2 1 2) 1 (mem_of []) = Returned sigs (0, 1, out') q'
       \<and> region out' 0 (unat (1 :: size_t) * unat (elem_size (new_queue (mem_of [1, 2]) 2 1 2)))
           = take (unat (1 :: size_t) * unat (elem_size (new_queue (mem_of [1, 2]) 2 1 2)))
               (contents (new_queue (mem_of [1, 2]) 2 1 2))
       \<and> contents q'
           = drop (unat (1 :: size_t) * unat (elem_size (new_queue (mem_of [1, 2]) 2 1 2)))
               (contents (new_queue (mem_of [1, 2]) 2 1 2)))"
proof -
  let ?qa = "new_queue (mem_of []) 3 1 0"
  let ?ea = "[Put 3 (mem_of [1, 2, 3]), Pop 1 (mem_of []), Pop 2 (mem_of [])]"
  let ?qb = "new_queue (mem_of [1, 2]) 2 1 2"
  let ?eb = "[Put 1 (mem_of [3]), Pop 1 (mem_of []), Put_wake 1 (mem_of [3]), Pop 2 (mem_of [])]"
  let ?qc = "run [Put 1 (mem_of [3]), Pop 1 (mem_of [])] ?qb"
  have wa: "well_formed ?qa" and wb: "well_formed ?qb"
    by (simp_all add: well_formed_def new_queue_def)
  from wb have wc: "well_formed ?qc" by (rule run_well_formed)
  have ta: "trace ?ea ?qa = [Inserted [1, 2, 3], Popped 1 [1], Popped 2 [2, 3]]"
    by code_simp
  have tb: "trace ?eb ?qb = [Popped 1 [1], Inserted [3], Popped 2 [2, 3]]"
    by code_simp
  have blocked: "is_blocked (tsqueue_put ?qb 1 (mem_of [3]))" by code_simp
  have "result_of (tsqueue_put_wake ?qc 1 (mem_of [3])) = Some 0" by code_simp
  then obtain s1 q1 where put: "tsqueue_put_wake ?qc 1 (mem_of [3]) = Returned s1 0 q1"
    by (cases "tsqueue_put_wake ?qc 1 (mem_of [3])") simp_all
  have "map_option fst (result_of (tsqueue_pop ?qb 1 (mem_of []))) = Some 0"
    and "map_option (fst \<circ> snd) (result_of (tsqueue_pop ?qb 1 (mem_of []))) = Some 1"
    by code_simp+
  then obtain s2 out' q2 where pop: "tsqueue_pop ?qb 1 (mem_of []) = Returned s2 (0, 1, out') q2"
    by (cases "tsqueue_pop ?qb 1 (mem_of [])") auto
  from fifo_order [of ?qa ?ea] wa
  have fa: "fifo (trace ?ea ?qa) (contents ?qa) = Some (contents (run ?ea ?qa))" by blast
  from fifo_order [of ?qb ?eb] wb
  have fb: "fifo (trace ?eb ?qb) (contents ?qb) = Some (contents (run ?eb ?qb))" by blast
  from fifo_order [of ?qc _ 1 "mem_of [3]" s1 q1] wc put
  have ca: "contents q1 = contents ?qc @ region (mem_of [3]) 0 (unat (1 :: size_t) * unat (elem_size ?qc))"
    by blast
  from fifo_order [of ?qb _ _ _ _ _ 1 "mem_of []" s2 1 out' q2] wb pop
  have cb: "region out' 0 (unat (1 :: size_t) * unat (elem_size ?qb))
              = take (unat (1 :: size_t) * unat (elem_size ?qb)) (contents ?qb)
            \<and> contents q2 = drop (unat (1 :: size_t) * unat (elem_size ?qb)) (contents ?qb)"
    by blast
  from put ca have ex1: "\<exists>sigs q'. tsqueue_put_wake ?qc 1 (mem_of [3]) = Returned sigs 0 q'
       \<and> contents q' = contents ?qc @ region (mem_of [3]) 0
                 (unat (1 :: size_t) * unat (elem_size ?qc))"
    by blast
  from pop cb have ex2: "\<exists>sigs out' q'.
         tsqueue_pop ?qb 1 (mem_of []) = Returned sigs (0, 1, out') q'
       \<and> region out' 0 (unat (1 :: size_t) * unat (elem_size ?qb))
           = take (unat (1 :: size_t) * unat (elem_size ?qb)) (contents ?qb)
       \<and> contents q' = drop (unat (1 :: size_t) * unat (elem_size ?qb)) (contents ?qb)"
    by blast
  from wa ta fa wb tb fb blocked ex1 ex2 show ?thesis by (intro conjI)
qed

section \<open>The capacity invariant\<close>

text \<open>
  C6. A queue created with \<open>used \<le> capacity\<close> keeps \<open>0 \<le> used \<le> capacity\<close>, and its
  \<open>capacity\<close> and \<open>elem_size\<close> as given to \<open>tsqueue_create\<close>, after every sequence of
  segments of calls, whatever their arguments and whenever blocked calls wake up.
\<close>

theorem capacity_invariant:
  assumes "tsqueue_create os queue_out dat cap es usd = Create_returned 0 (Some q) live"
    and "usd \<le> cap"
  shows "0 \<le> used (run evs q) \<and> used (run evs q) \<le> capacity (run evs q)
         \<and> capacity (run evs q) = cap \<and> elem_size (run evs q) = es"
proof -
  from assms(1) have q: "q = new_queue dat cap es usd" by (rule create_success)
  with assms(2) have "used q \<le> capacity q" by (simp add: new_queue_def)
  from run_bounds [OF this, of evs] show ?thesis by (simp add: q new_queue_def)
qed

theorem capacity_invariant_witness:
  "tsqueue_create
     \<lparr>malloc_ret = Some 0, errno = 0, mutex_init_ret = 0, producer_wakeup_init_ret = 0,
      consumer_wakeup_init_ret = 0, all_dead_init_ret = 0\<rparr>
     (Some 0) (mem_of [5]) 2 1 1
   = Create_returned 0 (Some (new_queue (mem_of [5]) 2 1 1))
       [Queue_object, Lock, Cond_var producer_wakeup, Cond_var consumer_wakeup,
        Cond_var all_dead]
   \<and> (1 :: size_t) \<le> 2
   \<and> used (run [Put 1 (mem_of [7]), Pop 2 (mem_of []), Set_done True, Pop_wake 2 (mem_of []), Close]
         (new_queue (mem_of [5]) 2 1 1))
     \<le> capacity (run [Put 1 (mem_of [7]), Pop 2 (mem_of []), Set_done True, Pop_wake 2 (mem_of []), Close]
         (new_queue (mem_of [5]) 2 1 1))
   \<and> capacity (run [Put 1 (mem_of [7]), Pop 2 (mem_of []), Set_done True, Pop_wake 2 (mem_of []), Close]
         (new_queue (mem_of [5]) 2 1 1)) = 2
   \<and> elem_size (run [Put 1 (mem_of [7]), Pop 2 (mem_of []), Set_done True, Pop_wake 2 (mem_of []), Close]
         (new_queue (mem_of [5]) 2 1 1)) = 1"
proof -
  have c: "tsqueue_create
     \<lparr>malloc_ret = Some 0, errno = 0, mutex_init_ret = 0, producer_wakeup_init_ret = 0,
      consumer_wakeup_init_ret = 0, all_dead_init_ret = 0\<rparr>
     (Some 0) (mem_of [5]) 2 1 1
   = Create_returned 0 (Some (new_queue (mem_of [5]) 2 1 1))
       [Queue_object, Lock, Cond_var producer_wakeup, Cond_var consumer_wakeup,
        Cond_var all_dead]"
    by (simp add: tsqueue_create_def Let_def)
  have le: "(1 :: size_t) \<le> 2" by simp
  from capacity_invariant [OF c le] c le show ?thesis by blast
qed

section \<open>Forced shutdown\<close>

text \<open>
  C1 (the code departs from it). A consumer calls \<open>pop(1)\<close> on an empty queue of
  capacity 4 and blocks, which leaves \<open>n_consumers_waiting = 1\<close>. \<open>tsqueue_close\<close> then
  sets \<open>die\<close>, signals \<open>consumer_wakeup\<close> once and returns in the same segment, with
  \<open>n_consumers_waiting\<close> still 1: the loop of line 176 waits only while both counters
  are non-zero, and \<open>producer_n_elems\<close> is 0.
\<close>

theorem close_returns_while_consumer_waits:
  "tsqueue_pop (new_queue dat 4 es 0) 1 out
     = Blocked [] consumer_wakeup ((new_queue dat 4 es 0)\<lparr>n_consumers_waiting := 1\<rparr>)
   \<and> tsqueue_close ((new_queue dat 4 es 0)\<lparr>n_consumers_waiting := 1\<rparr>)
     = Returned [consumer_wakeup] ()
         ((new_queue dat 4 es 0)\<lparr>n_consumers_waiting := 1, die := True\<rparr>)
   \<and> n_consumers_waiting
        (state_of (tsqueue_close ((new_queue dat 4 es 0)\<lparr>n_consumers_waiting := 1\<rparr>))) \<noteq> 0"
  by (simp add: tsqueue_pop_def tsqueue_pop_loop_def tsqueue_close_def tsqueue_close_loop_def
      new_queue_def)

text \<open>
  C7. After \<open>tsqueue_close\<close>, \<open>die\<close> holds and stays set through every sequence of
  segments. On a queue with \<open>die\<close> set, \<open>tsqueue_pop\<close> returns \<open>TSQUEUE_CLOSED\<close> with
  \<open>*n_elems = 0\<close> and \<open>out\<close> untouched, whether the call is new or wakes from its wait,
  and so do \<open>tsqueue_wait_for_space\<close> and \<open>tsqueue_put\<close>; the queue is left as it was,
  but for the waiting counter a woken call gives back, so \<open>used\<close> and \<open>data\<close> do not
  change.
\<close>

theorem closed_queue_is_terminal:
  "die (run evs (state_of (tsqueue_close q0)))
   \<and> (die q \<longrightarrow>
        tsqueue_pop q n out = Returned (signal_if_all_dead q) (TSQUEUE_CLOSED, 0, out) q
      \<and> tsqueue_pop_wake q n out
          = Returned (signal_if_all_dead (q\<lparr>n_consumers_waiting := n_consumers_waiting q - 1\<rparr>))
              (TSQUEUE_CLOSED, 0, out) (q\<lparr>n_consumers_waiting := n_consumers_waiting q - 1\<rparr>)
      \<and> tsqueue_wait_for_space q n = Returned (signal_if_all_dead q) TSQUEUE_CLOSED q
      \<and> tsqueue_wait_for_space_wake q n
          = Returned (signal_if_all_dead (q\<lparr>producer_n_elems := 0\<rparr>)) TSQUEUE_CLOSED
              (q\<lparr>producer_n_elems := 0\<rparr>)
      \<and> tsqueue_put q n inp = Returned (signal_if_all_dead q) TSQUEUE_CLOSED q
      \<and> tsqueue_put_wake q n inp
          = Returned (signal_if_all_dead (q\<lparr>producer_n_elems := 0\<rparr>)) TSQUEUE_CLOSED
              (q\<lparr>producer_n_elems := 0\<rparr>))"
  by (simp add: run_die close_sets_die closed_pop closed_pop_wake closed_wait_for_space
      closed_wait_for_space_wake tsqueue_wait_for_space_def tsqueue_wait_for_space_wake_def
      tsqueue_put_def tsqueue_put_wake_def)

theorem closed_queue_is_terminal_witness:
  "die ((new_queue (mem_of [1, 2]) 4 1 2)\<lparr>die := True\<rparr>)
   \<and> die (run [Set_done False, Put 1 (mem_of [9]), Pop_wake 1 (mem_of [])]
          (state_of (tsqueue_close (new_queue (mem_of [1, 2]) 4 1 2))))
   \<and> tsqueue_pop ((new_queue (mem_of [1, 2]) 4 1 2)\<lparr>die := True\<rparr>) 1 (mem_of [])
       = Returned [all_dead] (TSQUEUE_CLOSED, 0, mem_of [])
           ((new_queue (mem_of [1, 2]) 4 1 2)\<lparr>die := True\<rparr>)
   \<and> tsqueue_put ((new_queue (mem_of [1, 2]) 4 1 2)\<lparr>die := True\<rparr>) 1 (mem_of [9])
       = Returned [all_dead] TSQUEUE_CLOSED ((new_queue (mem_of [1, 2]) 4 1 2)\<lparr>die := True\<rparr>)"
proof -
  let ?q = "(new_queue (mem_of [1, 2]) 4 1 2)\<lparr>die := True\<rparr>"
  have d: "die ?q" by simp
  have s: "signal_if_all_dead ?q = [all_dead]"
    by (simp add: signal_if_all_dead_def new_queue_def)
  note t = closed_queue_is_terminal
    [of "[Set_done False, Put 1 (mem_of [9]), Pop_wake 1 (mem_of [])]"
        "new_queue (mem_of [1, 2]) 4 1 2" ?q 1 "mem_of []" "mem_of [9]"]
  from t d have "tsqueue_pop ?q 1 (mem_of [])
       = Returned (signal_if_all_dead ?q) (TSQUEUE_CLOSED, 0, mem_of []) ?q"
    and "tsqueue_put ?q 1 (mem_of [9]) = Returned (signal_if_all_dead ?q) TSQUEUE_CLOSED ?q"
    and "die (run [Set_done False, Put 1 (mem_of [9]), Pop_wake 1 (mem_of [])]
          (state_of (tsqueue_close (new_queue (mem_of [1, 2]) 4 1 2))))"
    by blast+
  with d s show ?thesis by (simp only: simp_thms)
qed

section \<open>Requests larger than the capacity\<close>

text \<open>
  C2, as stated, fails: on a closed queue \<open>wait_for_space(2)\<close> with capacity 1 returns
  \<open>TSQUEUE_CLOSED\<close>, and with a producer call pending \<open>put\<close> of 2 elements returns
  \<open>TSQUEUE_SINGLE_PRODUCER\<close>, since lines 320 and 335 overwrite \<open>retval\<close>.
\<close>

theorem oversized_request_counterexample:
  "capacity ((new_queue (mem_of []) 1 1 0)\<lparr>die := True\<rparr>) < 2
   \<and> result_of (tsqueue_wait_for_space ((new_queue (mem_of []) 1 1 0)\<lparr>die := True\<rparr>) 2)
       = Some TSQUEUE_CLOSED
   \<and> result_of (tsqueue_put ((new_queue (mem_of []) 1 1 0)\<lparr>producer_n_elems := 1\<rparr>) 2 (mem_of [7, 8]))
       = Some TSQUEUE_SINGLE_PRODUCER
   \<and> TSQUEUE_CLOSED \<noteq> TSQUEUE_TOO_MANY \<and> TSQUEUE_SINGLE_PRODUCER \<noteq> TSQUEUE_TOO_MANY"
  by (simp add: tsqueue_wait_for_space_def tsqueue_put_def wait_for_space_internal_def
      wait_for_space_internal_exit_def new_queue_def Let_def)

text \<open>
  C2, amended. With \<open>n > capacity\<close>, \<open>tsqueue_wait_for_space\<close> and \<open>tsqueue_put\<close> return
  in their first segment and leave the queue as it was; the error is \<open>TSQUEUE_CLOSED\<close>
  when the queue is closed, else \<open>TSQUEUE_SINGLE_PRODUCER\<close> when a producer call is
  pending, else \<open>TSQUEUE_TOO_MANY\<close>.
\<close>

theorem oversized_request_fails_at_once:
  assumes "capacity q < n"
  shows "tsqueue_wait_for_space q n
           = Returned (if die q then signal_if_all_dead q else [])
               (if die q then TSQUEUE_CLOSED
                else if producer_n_elems q \<noteq> 0 then TSQUEUE_SINGLE_PRODUCER
                else TSQUEUE_TOO_MANY) q
         \<and> tsqueue_put q n inp
           = Returned (if die q then signal_if_all_dead q else [])
               (if die q then TSQUEUE_CLOSED
                else if producer_n_elems q \<noteq> 0 then TSQUEUE_SINGLE_PRODUCER
                else TSQUEUE_TOO_MANY) q"
  using assms
  by (simp add: tsqueue_wait_for_space_def tsqueue_put_def wait_for_space_internal_def
      wait_for_space_internal_exit_def Let_def)

theorem oversized_request_fails_at_once_witness:
  "capacity (new_queue (mem_of []) 1 1 0) < 2
   \<and> tsqueue_wait_for_space (new_queue (mem_of []) 1 1 0) 2
       = Returned [] TSQUEUE_TOO_MANY (new_queue (mem_of []) 1 1 0)
   \<and> tsqueue_put (new_queue (mem_of []) 1 1 0) 2 (mem_of [7, 8])
       = Returned [] TSQUEUE_TOO_MANY (new_queue (mem_of []) 1 1 0)"
proof -
  have c: "capacity (new_queue (mem_of []) 1 1 0) < 2" by (simp add: new_queue_def)
  have "\<not> die (new_queue (mem_of []) 1 1 0)" "producer_n_elems (new_queue (mem_of []) 1 1 0) = 0"
    by (simp_all add: new_queue_def)
  with oversized_request_fails_at_once [OF c, of "mem_of [7, 8]"] c show ?thesis by simp
qed

section \<open>The partial-batch policy\<close>

text \<open>
  C4, as stated, fails: with \<open>producers_done\<close> set and the queue open, \<open>pop(6)\<close> on a
  queue of capacity 5 holding 2 elements returns \<open>TSQUEUE_TOO_MANY\<close> and leaves
  \<open>*n_elems = 6\<close>, not \<open>min(6, 2)\<close>.
\<close>

theorem partial_batch_counterexample:
  "result_of (tsqueue_put (new_queue (mem_of []) 5 1 0) 2 (mem_of [10, 20])) = Some 0
   \<and> producers_done (state_of (tsqueue_set_done
        (state_of (tsqueue_put (new_queue (mem_of []) 5 1 0) 2 (mem_of [10, 20]))) True))
   \<and> \<not> die (state_of (tsqueue_set_done
        (state_of (tsqueue_put (new_queue (mem_of []) 5 1 0) 2 (mem_of [10, 20]))) True))
   \<and> map_option fst
        (result_of (tsqueue_pop (state_of (tsqueue_set_done
           (state_of (tsqueue_put (new_queue (mem_of []) 5 1 0) 2 (mem_of [10, 20]))) True))
           6 (mem_of [])))
       = Some TSQUEUE_TOO_MANY
   \<and> map_option (fst \<circ> snd)
        (result_of (tsqueue_pop (state_of (tsqueue_set_done
           (state_of (tsqueue_put (new_queue (mem_of []) 5 1 0) 2 (mem_of [10, 20]))) True))
           6 (mem_of [])))
       = Some 6
   \<and> min 6 (used (state_of (tsqueue_set_done
        (state_of (tsqueue_put (new_queue (mem_of []) 5 1 0) 2 (mem_of [10, 20]))) True))) = 2"
  by (simp add: tsqueue_put_def wait_for_space_internal_def wait_for_space_internal_loop_def
      wait_for_space_internal_exit_def tsqueue_set_done_def tsqueue_pop_def
      tsqueue_pop_exit_def new_queue_def)

text \<open>
  C4, amended. On a new queue of capacity 5, \<open>put\<close> of two elements returns 0; after
  \<open>set_done(true)\<close>, \<open>pop(5)\<close> returns 0 with \<open>*n_elems = 2\<close> and the two elements at the
  head of \<open>out\<close>, and a following \<open>pop(1)\<close> returns 0 with \<open>*n_elems = 0\<close>. In general,
  when \<open>producers_done\<close> is set and the queue is not closed, a \<open>pop\<close> of at most
  \<open>capacity\<close> elements, or one that wakes from its wait, returns 0 in that segment with
  \<open>*n_elems = min(max_n, used)\<close>.
\<close>

theorem partial_batch:
  "(5 * unat es < 2 ^ 64 \<longrightarrow>
      (\<exists>s1 q1 s2 out' q2 s3 q3.
           tsqueue_put (new_queue dat 5 es 0) 2 inp = Returned s1 0 q1
         \<and> tsqueue_pop (state_of (tsqueue_set_done q1 True)) 5 out = Returned s2 (0, 2, out') q2
         \<and> region out' 0 (2 * unat es) = region inp 0 (2 * unat es)
         \<and> tsqueue_pop q2 1 out2 = Returned s3 (0, 0, out2) q3))
   \<and> (producers_done q \<and> \<not> die q \<and> n \<le> capacity q \<longrightarrow>
        (\<exists>sigs out' q'. tsqueue_pop q n out = Returned sigs (0, min n (used q), out') q'
           \<and> used q' = used q - min n (used q)))
   \<and> (producers_done q \<and> \<not> die q \<longrightarrow>
        (\<exists>sigs out' q'. tsqueue_pop_wake q n out = Returned sigs (0, min n (used q), out') q'
           \<and> used q' = used q - min n (used q)))"
  using soft_completion_scenario [of es dat inp out out2] pop_done [of q n out]
    pop_wake_done [of q n out]
  by blast

theorem partial_batch_witness:
  "5 * unat (1 :: size_t) < 2 ^ 64
   \<and> (\<exists>s1 q1 s2 out' q2 s3 q3.
           tsqueue_put (new_queue (mem_of []) 5 1 0) 2 (mem_of [10, 20]) = Returned s1 0 q1
         \<and> tsqueue_pop (state_of (tsqueue_set_done q1 True)) 5 (mem_of []) = Returned s2 (0, 2, out') q2
         \<and> region out' 0 (2 * unat (1 :: size_t)) = region (mem_of [10, 20]) 0 (2 * unat (1 :: size_t))
         \<and> tsqueue_pop q2 1 (mem_of []) = Returned s3 (0, 0, mem_of []) q3)
   \<and> producers_done ((new_queue (mem_of [10, 20]) 5 1 2)\<lparr>producers_done := True\<rparr>)
   \<and> \<not> die ((new_queue (mem_of [10, 20]) 5 1 2)\<lparr>producers_done := True\<rparr>)
   \<and> 5 \<le> capacity ((new_queue (mem_of [10, 20]) 5 1 2)\<lparr>producers_done := True\<rparr>)
   \<and> (\<exists>sigs out' q'.
         tsqueue_pop ((new_queue (mem_of [10, 20]) 5 1 2)\<lparr>producers_done := True\<rparr>) 5 (mem_of [])
           = Returned sigs (0, 2, out') q'
         \<and> used q' = 0)"
proof -
  let ?q = "(new_queue (mem_of [10, 20]) 5 1 2)\<lparr>producers_done := True\<rparr>"
  have h: "5 * unat (1 :: size_t) < 2 ^ 64" by simp
  have q: "producers_done ?q" "\<not> die ?q" "5 \<le> capacity ?q" "used ?q = 2"
    by (simp_all add: new_queue_def)
  have m: "min 5 (2 :: size_t) = 2" by simp
  from partial_batch [of 1 "mem_of []" "mem_of [10, 20]" "mem_of []" "mem_of []" ?q 5]
    h q
  show ?thesis by (simp only: m simp_thms diff_self)
qed

section \<open>Soft completion\<close>

text \<open>
  C9. \<open>set_done(true)\<close> twice is \<open>set_done(true)\<close> once, signals included;
  \<open>set_done(false)\<close> after \<open>set_done(true)\<close> leaves the queue as it was, with
  \<open>producers_done\<close> false. Every \<open>pop\<close>, new or woken, that returns a partial batch
  after \<open>set_done(true)\<close>, that is 0 with fewer elements than asked, waits after
  \<open>set_done(false)\<close>. Such pops are those of a queue that is not closed, asked for more
  elements than are available and for at most \<open>capacity\<close>.
\<close>

theorem set_done_idempotent_reversible:
  "tsqueue_set_done (state_of (tsqueue_set_done q True)) True = tsqueue_set_done q True
   \<and> state_of (tsqueue_set_done (state_of (tsqueue_set_done q True)) False)
       = q\<lparr>producers_done := False\<rparr>
   \<and> (tsqueue_pop (state_of (tsqueue_set_done q True)) n out = Returned sigs (0, k, out') q'
        \<and> k < n \<longrightarrow>
        tsqueue_pop (state_of (tsqueue_set_done (state_of (tsqueue_set_done q True)) False)) n out
          = Blocked [] consumer_wakeup
              (q\<lparr>producers_done := False,
                 n_consumers_waiting := n_consumers_waiting q + 1\<rparr>))
   \<and> (tsqueue_pop_wake (state_of (tsqueue_set_done q True)) n out = Returned sigs (0, k, out') q'
        \<and> k < n \<longrightarrow>
        tsqueue_pop_wake (state_of (tsqueue_set_done (state_of (tsqueue_set_done q True)) False))
            n out
          = Blocked [] consumer_wakeup (q\<lparr>producers_done := False\<rparr>))
   \<and> (\<not> die q \<and> n \<le> capacity q \<and> used q < n \<longrightarrow>
        (\<exists>sigs out' q'. tsqueue_pop (state_of (tsqueue_set_done q True)) n out
                          = Returned sigs (0, used q, out') q')
      \<and> tsqueue_pop (state_of (tsqueue_set_done (state_of (tsqueue_set_done q True)) False)) n out
          = Blocked [] consumer_wakeup
              (q\<lparr>producers_done := False,
                 n_consumers_waiting := n_consumers_waiting q + 1\<rparr>))"
proof -
  have blocks: "tsqueue_pop (q\<lparr>producers_done := False\<rparr>) n out
        = Blocked [] consumer_wakeup
              (q\<lparr>producers_done := False, n_consumers_waiting := n_consumers_waiting q + 1\<rparr>)"
    if "\<not> die q" "\<not> capacity q < n" "used q < n"
    using that by (simp add: tsqueue_pop_def tsqueue_pop_loop_def)
  have wake_blocks: "tsqueue_pop_wake (q\<lparr>producers_done := False\<rparr>) n out
        = Blocked [] consumer_wakeup (q\<lparr>producers_done := False\<rparr>)"
    if "\<not> die q" "used q < n"
    using that by (simp add: tsqueue_pop_wake_def tsqueue_pop_loop_def)
  have partial: "\<exists>sigs out' q'. tsqueue_pop (q\<lparr>producers_done := True\<rparr>) n out
                          = Returned sigs (0, used q, out') q'"
    if "\<not> die q" "n \<le> capacity q" "used q < n"
  proof -
    from that(3) have "min n (used q) = used q" by (auto simp: min_def)
    with pop_done [of "q\<lparr>producers_done := True\<rparr>" n out] that show ?thesis by auto
  qed
  have rel: "tsqueue_pop (q\<lparr>producers_done := False\<rparr>) n out
        = Blocked [] consumer_wakeup
              (q\<lparr>producers_done := False, n_consumers_waiting := n_consumers_waiting q + 1\<rparr>)"
    if "tsqueue_pop (q\<lparr>producers_done := True\<rparr>) n out = Returned sigs (0, k, out') q'" "k < n"
    using short_batch_means_open [OF that] blocks by simp
  have rel_wake: "tsqueue_pop_wake (q\<lparr>producers_done := False\<rparr>) n out
        = Blocked [] consumer_wakeup (q\<lparr>producers_done := False\<rparr>)"
    if "tsqueue_pop_wake (q\<lparr>producers_done := True\<rparr>) n out = Returned sigs (0, k, out') q'"
      "k < n"
    using short_batch_wake_means_open [OF that] wake_blocks by simp
  have le: "\<not> capacity q < n" if "n \<le> capacity q" using that by (simp add: not_less)
  from blocks partial rel rel_wake le show ?thesis by (simp add: tsqueue_set_done_def)
qed

theorem set_done_idempotent_reversible_witness:
  "\<not> die (new_queue (mem_of [7]) 3 1 1) \<and> 2 \<le> capacity (new_queue (mem_of [7]) 3 1 1)
   \<and> used (new_queue (mem_of [7]) 3 1 1) < 2
   \<and> (\<exists>sigs out' q'. tsqueue_pop (state_of (tsqueue_set_done (new_queue (mem_of [7]) 3 1 1) True))
                          2 (mem_of [])
                        = Returned sigs (0, 1, out') q')
   \<and> (\<exists>sigs out' q'. tsqueue_pop_wake
                          (state_of (tsqueue_set_done (new_queue (mem_of [7]) 3 1 1) True))
                          2 (mem_of [])
                        = Returned sigs (0, 1, out') q')
   \<and> (1 :: size_t) < 2
   \<and> is_blocked (tsqueue_pop (state_of (tsqueue_set_done
        (state_of (tsqueue_set_done (new_queue (mem_of [7]) 3 1 1) True)) False)) 2 (mem_of []))
   \<and> is_blocked (tsqueue_pop_wake (state_of (tsqueue_set_done
        (state_of (tsqueue_set_done (new_queue (mem_of [7]) 3 1 1) True)) False)) 2 (mem_of []))"
proof -
  let ?q = "new_queue (mem_of [7]) 3 1 1"
  let ?done = "state_of (tsqueue_set_done ?q True)"
  let ?undone = "state_of (tsqueue_set_done ?done False)"
  have q: "\<not> die ?q" "2 \<le> capacity ?q" "used ?q < 2" "used ?q = 1"
    by (simp_all add: new_queue_def)
  have lt: "(1 :: size_t) < 2" by simp
  have "map_option fst (result_of (tsqueue_pop ?done 2 (mem_of []))) = Some 0"
    and "map_option (fst \<circ> snd) (result_of (tsqueue_pop ?done 2 (mem_of []))) = Some 1"
    by code_simp+
  then obtain s1 o1 q1 where p: "tsqueue_pop ?done 2 (mem_of []) = Returned s1 (0, 1, o1) q1"
    by (cases "tsqueue_pop ?done 2 (mem_of [])") auto
  have "map_option fst (result_of (tsqueue_pop_wake ?done 2 (mem_of []))) = Some 0"
    and "map_option (fst \<circ> snd) (result_of (tsqueue_pop_wake ?done 2 (mem_of []))) = Some 1"
    by code_simp+
  then obtain s2 o2 q2 where w: "tsqueue_pop_wake ?done 2 (mem_of []) = Returned s2 (0, 1, o2) q2"
    by (cases "tsqueue_pop_wake ?done 2 (mem_of [])") auto
  from set_done_idempotent_reversible [of ?q 2 "mem_of []" s1 1 o1 q1] p lt
  have "tsqueue_pop ?undone 2 (mem_of [])
      = Blocked [] consumer_wakeup
          (?q\<lparr>producers_done := False, n_consumers_waiting := n_consumers_waiting ?q + 1\<rparr>)"
    by blast
  then have b1: "is_blocked (tsqueue_pop ?undone 2 (mem_of []))"
    by (simp only: is_blocked.simps)
  from set_done_idempotent_reversible [of ?q 2 "mem_of []" s2 1 o2 q2] w lt
  have "tsqueue_pop_wake ?undone 2 (mem_of [])
      = Blocked [] consumer_wakeup (?q\<lparr>producers_done := False\<rparr>)"
    by blast
  then have b2: "is_blocked (tsqueue_pop_wake ?undone 2 (mem_of []))"
    by (simp only: is_blocked.simps)
  from p have e1: "\<exists>sigs out' q'. tsqueue_pop ?done 2 (mem_of []) = Returned sigs (0, 1, out') q'"
    by blast
  from w have e2: "\<exists>sigs out' q'. tsqueue_pop_wake ?done 2 (mem_of []) = Returned sigs (0, 1, out') q'"
    by blast
  from q(1-3) e1 e2 lt b1 b2 show ?thesis by (intro conjI)
qed

section \<open>Destruction\<close>

text \<open>
  C8. On a new queue of capacity 4, after \<open>put\<close> of two elements x, y and \<open>pop(1)\<close>, which
  shows x, \<open>tsqueue_destroy\<close> stores 1 through \<open>used\<close>, the first slot of the array holds
  y, and the array is not among the resources released. In general, when
  \<open>tsqueue_destroy\<close> returns, at once or after its wait, it has stored \<open>used\<close> (when asked
  to), left \<open>data\<close> as it was and not released the array; and the first \<open>used\<close> slots of
  the array hold, in order, what any sequence of \<open>pop\<close> calls made in its place would
  have shown, followed by what these calls would have left.
\<close>

theorem destroy_leaves_remainder:
  "(4 * unat es < 2 ^ 64 \<longrightarrow>
      (\<exists>s1 q1 s2 out' q2 s3 rel q3.
           tsqueue_put (new_queue dat 4 es 0) 2 inp = Returned s1 0 q1
         \<and> tsqueue_pop q1 1 out = Returned s2 (0, 1, out') q2
         \<and> slot out' es 0 = slot inp es 0
         \<and> tsqueue_destroy q2 True = Returned s3 (Some 1, rel) q3
         \<and> slot (data q3) es 0 = slot inp es 1
         \<and> Backing_store \<notin> set rel))
   \<and> (tsqueue_destroy q w = Returned sigs (left, rel) q'
        \<or> tsqueue_destroy_wake q w = Returned sigs (left, rel) q' \<longrightarrow>
        left = (if w then Some (used q) else None)
      \<and> data q' = data q
      \<and> Backing_store \<notin> set rel
      \<and> (well_formed q \<and> pop_all q calls = Some (outs, q'') \<longrightarrow>
           concat outs @ contents q''
             = region (data q') 0 (unat (used q) * unat (elem_size q))))"
proof -
  have "concat outs @ contents q'' = region (data q) 0 (unat (used q) * unat (elem_size q))"
    if "well_formed q" "pop_all q calls = Some (outs, q'')"
  proof -
    from pop_all_contents [OF that(2) that(1)]
    have "concat outs @ contents q'' = contents q" by blast
    then show ?thesis by (simp only: contents_def [of q])
  qed
  then show ?thesis
    using destroy_scenario [of es dat inp out] destroy_returned [of q w sigs left rel q']
      destroy_wake_returned [of q w sigs left rel q']
    by auto
qed

theorem destroy_leaves_remainder_witness:
  "4 * unat (1 :: size_t) < 2 ^ 64
   \<and> (\<exists>s1 q1 s2 out' q2 s3 rel q3.
           tsqueue_put (new_queue (mem_of []) 4 1 0) 2 (mem_of [10, 20]) = Returned s1 0 q1
         \<and> tsqueue_pop q1 1 (mem_of []) = Returned s2 (0, 1, out') q2
         \<and> slot out' 1 0 = slot (mem_of [10, 20]) 1 0
         \<and> tsqueue_destroy q2 True = Returned s3 (Some 1, rel) q3
         \<and> slot (data q3) 1 0 = slot (mem_of [10, 20]) 1 1
         \<and> Backing_store \<notin> set rel)
   \<and> slot (mem_of [10, 20]) 1 1 = [20]
   \<and> tsqueue_destroy (new_queue (mem_of [20]) 4 1 1) True
       = Returned [] (Some 1, [Lock, Cond_var producer_wakeup, Cond_var consumer_wakeup,
                               Cond_var all_dead, Queue_object])
           ((new_queue (mem_of [20]) 4 1 1)\<lparr>die := True\<rparr>)
   \<and> well_formed (new_queue (mem_of [20]) 4 1 1)
   \<and> map_option fst (pop_all (new_queue (mem_of [20]) 4 1 1) [(1, mem_of [])]) = Some [[20]]
   \<and> concat [[20]] @ contents (snd (the (pop_all (new_queue (mem_of [20]) 4 1 1) [(1, mem_of [])])))
       = region (data ((new_queue (mem_of [20]) 4 1 1)\<lparr>die := True\<rparr>)) 0
           (unat (used (new_queue (mem_of [20]) 4 1 1))
            * unat (elem_size (new_queue (mem_of [20]) 4 1 1)))"
proof -
  let ?q = "new_queue (mem_of [20]) 4 1 1"
  let ?c = "[(1, mem_of [])] :: (size_t \<times> mem) list"
  let ?rel = "[Lock, Cond_var producer_wakeup, Cond_var consumer_wakeup, Cond_var all_dead,
               Queue_object]"
  have h: "4 * unat (1 :: size_t) < 2 ^ 64" by simp
  have y: "slot (mem_of [10, 20]) 1 1 = [20]" by code_simp
  have d: "tsqueue_destroy ?q True = Returned [] (Some 1, ?rel) (?q\<lparr>die := True\<rparr>)"
    by (simp add: tsqueue_destroy_def tsqueue_close_def tsqueue_close_loop_def new_queue_def)
  have wf: "well_formed ?q" by (simp add: well_formed_def new_queue_def)
  have outs: "map_option fst (pop_all ?q ?c) = Some [[20]]" by code_simp
  then obtain q'' where p: "pop_all ?q ?c = Some ([[20]], q'')"
    by (cases "pop_all ?q ?c") (auto simp del: pop_all.simps)
  note t = destroy_leaves_remainder
    [of 1 "mem_of []" "mem_of [10, 20]" "mem_of []" ?q True "[]" "Some 1" ?rel
        "?q\<lparr>die := True\<rparr>" ?c "[[20]]" q'']
  from t h have scenario: "\<exists>s1 q1 s2 out' q2 s3 rel q3.
           tsqueue_put (new_queue (mem_of []) 4 1 0) 2 (mem_of [10, 20]) = Returned s1 0 q1
         \<and> tsqueue_pop q1 1 (mem_of []) = Returned s2 (0, 1, out') q2
         \<and> slot out' 1 0 = slot (mem_of [10, 20]) 1 0
         \<and> tsqueue_destroy q2 True = Returned s3 (Some 1, rel) q3
         \<and> slot (data q3) 1 0 = slot (mem_of [10, 20]) 1 1
         \<and> Backing_store \<notin> set rel"
    by blast
  from t d wf p have "concat [[20]] @ contents q''
       = region (data (?q\<lparr>die := True\<rparr>)) 0 (unat (used ?q) * unat (elem_size ?q))"
    by blast
  with h scenario y d wf outs show ?thesis
    by (simp only: p option.sel snd_conv simp_thms)
qed

section \<open>Creation\<close>

text \<open>
  C10. When \<open>malloc\<close> and the four initialisations succeed, \<open>tsqueue_create\<close> returns 0
  for every \<open>used\<close>, with the queue holding that value: nothing compares it with
  \<open>capacity\<close>. When \<open>used > capacity\<close>, the subtraction \<open>capacity - used\<close> of line 328
  wraps around to \<open>capacity - used + 2 ^ 64\<close>, so that \<open>tsqueue_wait_for_space\<close> returns
  0 at once for every request of at most \<open>capacity\<close> elements.
\<close>

theorem create_does_not_check_used:
  "(malloc_ret os \<noteq> None \<and> mutex_init_ret os = 0 \<and> producer_wakeup_init_ret os = 0
      \<and> consumer_wakeup_init_ret os = 0 \<and> all_dead_init_ret os = 0 \<longrightarrow>
        tsqueue_create os (Some p) dat cap es usd
          = Create_returned 0 (Some (new_queue dat cap es usd))
              [Queue_object, Lock, Cond_var producer_wakeup, Cond_var consumer_wakeup,
               Cond_var all_dead]
      \<and> used (new_queue dat cap es usd) = usd)
   \<and> (cap < usd \<longrightarrow>
        uint (capacity (new_queue dat cap es usd) - used (new_queue dat cap es usd))
          = uint cap - uint usd + 2 ^ 64
      \<and> (n \<le> cap \<longrightarrow>
            tsqueue_wait_for_space (new_queue dat cap es usd) n
              = Returned [] 0 (new_queue dat cap es usd)))"
proof -
  have "tsqueue_wait_for_space (new_queue dat cap es usd) n
              = Returned [] 0 (new_queue dat cap es usd)"
    if "cap < usd" "n \<le> cap"
  proof -
    from that(2) have "\<not> cap < n" by (simp add: not_less)
    with overfull_never_waits [OF that] show ?thesis
      by (simp add: tsqueue_wait_for_space_def wait_for_space_internal_def
          wait_for_space_internal_loop_def wait_for_space_internal_exit_def new_queue_def)
  qed
  then show ?thesis
    using create_all_succeed [of os p dat cap es usd] free_space_underflow [of cap usd]
    by (simp add: new_queue_def)
qed

theorem create_does_not_check_used_witness:
  "tsqueue_create
     \<lparr>malloc_ret = Some 0, errno = 0, mutex_init_ret = 0, producer_wakeup_init_ret = 0,
      consumer_wakeup_init_ret = 0, all_dead_init_ret = 0\<rparr>
     (Some 0) (mem_of [1, 2, 3]) 2 1 3
   = Create_returned 0 (Some (new_queue (mem_of [1, 2, 3]) 2 1 3))
       [Queue_object, Lock, Cond_var producer_wakeup, Cond_var consumer_wakeup,
        Cond_var all_dead]
   \<and> used (new_queue (mem_of [1, 2, 3]) 2 1 3) = 3
   \<and> (2 :: size_t) < 3
   \<and> capacity (new_queue (mem_of [1, 2, 3]) 2 1 3) - used (new_queue (mem_of [1, 2, 3]) 2 1 3)
       = 18446744073709551615
   \<and> tsqueue_wait_for_space (new_queue (mem_of [1, 2, 3]) 2 1 3) 2
       = Returned [] 0 (new_queue (mem_of [1, 2, 3]) 2 1 3)"
proof -
  let ?os = "\<lparr>malloc_ret = Some 0, errno = 0, mutex_init_ret = 0, producer_wakeup_init_ret = 0,
      consumer_wakeup_init_ret = 0, all_dead_init_ret = 0\<rparr>"
  note t = create_does_not_check_used [of ?os 0 "mem_of [1, 2, 3]" 2 1 3 2]
  have os: "malloc_ret ?os \<noteq> None \<and> mutex_init_ret ?os = 0 \<and> producer_wakeup_init_ret ?os = 0
      \<and> consumer_wakeup_init_ret ?os = 0 \<and> all_dead_init_ret ?os = 0" by simp
  have lt: "(2 :: size_t) < 3" "(2 :: size_t) \<le> 2" by simp_all
  have v: "capacity (new_queue (mem_of [1, 2, 3]) 2 1 3) - used (new_queue (mem_of [1, 2, 3]) 2 1 3)
       = 18446744073709551615" by (simp add: new_queue_def)
  from t os lt v show ?thesis by blast
qed

section \<open>Failure of the allocation of the queue object\<close>

text \<open>
  C3 (the code departs from it). When \<open>malloc\<close> returns \<open>NULL\<close>, \<open>tsqueue_create\<close> does
  not return \<open>errno\<close>: the test of line 92 looks at the out-parameter, which is not
  null, so \<open>retval\<close> stays 0 and line 97 stores the initial field values through the
  null pointer.
\<close>

theorem create_malloc_failure_dereferences_null:
  "tsqueue_create (os\<lparr>malloc_ret := None\<rparr>) (Some p) dat cap es usd = Null_dereference"
  by (simp add: tsqueue_create_def)

end
